theory Spec2Isabelle
  imports Main "HOL-Library.Char_ord" "HOL-Library.List_Lexorder"
begin

section \<open>Voucher-discount order pipeline of the storefront (src/src/index.tsx)\<close>

text \<open>
  The development embeds the two public handlers \<^verbatim>\<open>POST /api/orders\<close> and
  \<^verbatim>\<open>POST /api/vouchers/validate\<close> of the second (voucher-aware) version of
  \<^verbatim>\<open>index.tsx\<close>, together with the two admin handlers that update or delete
  existing voucher rows. The D1 datastore is an explicit state that every handler takes
  and returns; the clock and the datastore's failures are an explicit environment.

  A handler is modelled from the parsed request on. \<^verbatim>\<open>initDB\<close>, which the public
  handlers call first, creates the three tables when they are missing and swallows its
  own errors; it changes no row, and the model starts from the tables it leaves.
\<close>

subsection \<open>JavaScript values of a request body\<close>

text \<open>
  A field of the parsed JSON body is absent (\<open>undefined\<close>), \<open>null\<close>, a boolean, a
  number or a string. Strings are carried at ASCII code points. Arrays and objects as
  field values are outside the model.

  Numbers are carried at integer values, and the model computes on them exactly. The
  handlers compute on IEEE doubles: a number with a fractional part is outside the
  model, and the model's number is the handler's only while every operand and result
  is below \<open>2^53\<close> in magnitude (\<open>safe_integer\<close> below), where doubles hold integers
  and their sums, differences and products exactly. The properties that speak of a
  parsed or computed number carry that bound as a hypothesis.
\<close>

datatype jsval = JUndefined | JNull | JBool bool | JNum int | JStr string

text \<open>\<^verbatim>\<open>Number.isSafeInteger\<close>: the integers that a double holds exactly, and
  between which the doubles have no gap.\<close>

definition safe_integer :: "int \<Rightarrow> bool" where
  "safe_integer n = (\<bar>n\<bar> < 2 ^ 53)"

text \<open>JavaScript truthiness, as used by \<^verbatim>\<open>!x\<close>, \<^verbatim>\<open>x && y\<close>, \<^verbatim>\<open>x || y\<close> and \<^verbatim>\<open>x ? y : z\<close>.\<close>

fun truthy :: "jsval \<Rightarrow> bool" where
  "truthy JUndefined = False"
| "truthy JNull = False"
| "truthy (JBool b) = b"
| "truthy (JNum n) = (n \<noteq> 0)"
| "truthy (JStr s) = (s \<noteq> [])"

text \<open>\<^verbatim>\<open>x || d\<close> on values.\<close>

definition js_or :: "jsval \<Rightarrow> jsval \<Rightarrow> jsval" where
  "js_or x d = (if truthy x then x else d)"

subsection \<open>String.prototype.trim and String.prototype.toUpperCase\<close>

text \<open>The ASCII white space and line terminators that \<^verbatim>\<open>trim\<close> strips:
  TAB, LF, VT, FF, CR and SPACE.\<close>

definition is_space :: "char \<Rightarrow> bool" where
  "is_space c = (of_char c \<in> {9, 10, 11, 12, 13, 32 :: nat})"

definition trim :: "string \<Rightarrow> string" where
  "trim s = rev (dropWhile is_space (rev (dropWhile is_space s)))"

definition upper_char :: "char \<Rightarrow> char" where
  "upper_char c =
     (let n = (of_char c :: nat) in if 97 \<le> n \<and> n \<le> 122 then char_of (n - 32) else c)"

definition toUpperCase :: "string \<Rightarrow> string" where
  "toUpperCase s = map upper_char s"

text \<open>\<^verbatim>\<open>code.trim().toUpperCase()\<close>, the form under which a voucher code is looked up.\<close>

definition normalize_code :: "string \<Rightarrow> string" where
  "normalize_code s = toUpperCase (trim s)"

subsection \<open>parseInt\<close>

text \<open>
  \<^verbatim>\<open>parseInt(x)\<close> with no radix: the argument is converted to a string, leading white
  space is skipped, an optional sign is read, a \<^verbatim>\<open>0x\<close>/\<^verbatim>\<open>0X\<close> prefix selects radix 16,
  and the longest prefix of digits is read. \<open>None\<close> stands for \<open>NaN\<close> (no digit read).
  The digits are read to their exact value; JavaScript returns the double nearest to
  it, which is that value when it is a \<open>safe_integer\<close>.
\<close>

definition digit_of :: "char \<Rightarrow> nat option" where
  "digit_of c =
     (let n = (of_char c :: nat) in
      if 48 \<le> n \<and> n \<le> 57 then Some (n - 48)
      else if 97 \<le> n \<and> n \<le> 122 then Some (n - 87)
      else if 65 \<le> n \<and> n \<le> 90 then Some (n - 55)
      else None)"

definition is_digit :: "nat \<Rightarrow> char \<Rightarrow> bool" where
  "is_digit radix c = (case digit_of c of None \<Rightarrow> False | Some d \<Rightarrow> d < radix)"

definition digits_value :: "nat \<Rightarrow> string \<Rightarrow> nat" where
  "digits_value radix ds = foldl (\<lambda>a c. a * radix + the (digit_of c)) 0 ds"

definition parse_digits :: "nat \<Rightarrow> string \<Rightarrow> nat option" where
  "parse_digits radix s =
     (let z = takeWhile (is_digit radix) s in
      if z = [] then None else Some (digits_value radix z))"

definition parse_unsigned :: "string \<Rightarrow> nat option" where
  "parse_unsigned s =
     (if take 2 s = ''0x'' \<or> take 2 s = ''0X'' then parse_digits 16 (drop 2 s)
      else parse_digits 10 s)"

definition parseInt_string :: "string \<Rightarrow> int option" where
  "parseInt_string inputString =
     (let s = dropWhile is_space inputString in
      case s of
        [] \<Rightarrow> None
      | c # rest \<Rightarrow>
          if c = CHR ''-'' then map_option (\<lambda>n. - int n) (parse_unsigned rest)
          else if c = CHR ''+'' then map_option int (parse_unsigned rest)
          else map_option int (parse_unsigned s))"

text \<open>
  \<open>ToString\<close> of a number that is a \<open>safe_integer\<close> is its decimal numeral, which
  \<^verbatim>\<open>parseInt\<close> reads back (from \<open>10^21\<close> on \<open>ToString\<close> uses an exponent and
  \<^verbatim>\<open>parseInt\<close> reads the leading digit; the model does not follow it there);
  \<open>undefined\<close>, \<open>null\<close> and the booleans convert to words without a leading digit.
\<close>

fun parseInt :: "jsval \<Rightarrow> int option" where
  "parseInt (JStr s) = parseInt_string s"
| "parseInt (JNum n) = Some n"
| "parseInt JUndefined = parseInt_string ''undefined''"
| "parseInt JNull = parseInt_string ''null''"
| "parseInt (JBool b) = parseInt_string (if b then ''true'' else ''false'')"

subsection \<open>Number.prototype.toString(36)\<close>

definition digit36 :: "nat \<Rightarrow> char" where
  "digit36 d = ''0123456789abcdefghijklmnopqrstuvwxyz'' ! d"

function toString36 :: "nat \<Rightarrow> string" where
  "toString36 n = (if n < 36 then [digit36 n] else toString36 (n div 36) @ [digit36 (n mod 36)])"
  by pat_completeness auto
termination
  by (relation "measure id") auto


text \<open>\<^verbatim>\<open>'FS' + Date.now().toString(36).toUpperCase()\<close>, from the reading of the clock in milliseconds.\<close>

definition orderCode_of :: "nat \<Rightarrow> string" where
  "orderCode_of ms = ''FS'' @ toUpperCase (toString36 ms)"

subsection \<open>The datastore\<close>

text \<open>
  The three tables, with the columns these handlers read or write. A table is the list
  of its rows; \<open>orders_seq\<close> is the AUTOINCREMENT sequence of \<open>orders\<close> (the largest row
  id handed out so far). Amounts (\<open>REAL\<close> columns) are carried at integer values, and the
  \<open>DATETIME\<close> columns hold the text they were given, which SQLite compares bytewise.
\<close>

record product_row =
  p_id :: int
  p_name :: string
  p_price :: int
  p_is_active :: int

record voucher_row =
  v_id :: int
  v_code :: string
  v_discount_amount :: int
  v_valid_from :: string
  v_valid_to :: string
  v_usage_limit :: int
  v_used_count :: int
  v_is_active :: int

record order_row =
  o_id :: int
  o_order_code :: string
  o_customer_name :: jsval
  o_customer_phone :: jsval
  o_customer_address :: jsval
  o_product_id :: jsval
  o_product_name :: string
  o_product_price :: int
  o_color :: jsval
  o_size :: jsval
  o_quantity :: int
  o_total_price :: int
  o_voucher_code :: string
  o_discount_amount :: int
  o_note :: jsval
  o_status :: string

record db =
  products :: "product_row list"
  orders :: "order_row list"
  vouchers :: "voucher_row list"
  orders_seq :: int

subsection \<open>Requests, environment and responses\<close>

text \<open>The destructured body of \<^verbatim>\<open>POST /api/orders\<close> (the fields \<open>size\<close> and \<open>note\<close>
  carry a suffix).\<close>

record body =
  customer_name :: jsval
  customer_phone :: jsval
  customer_address :: jsval
  product_id :: jsval
  color :: jsval
  size_field :: jsval
  quantity :: jsval
  note_field :: jsval
  voucher_code :: jsval

text \<open>The statements a handler sends to the datastore, each of which may throw.\<close>

datatype stmt =
  SelectProduct | SelectVoucher | UpdateVoucher | InsertOrder | ToggleVoucher | DeleteVoucher

text \<open>
  What a handler takes from outside the datastore's rows: \<open>now_iso\<close> is
  \<^verbatim>\<open>new Date().toISOString()\<close>, \<open>now_ms\<close> is \<^verbatim>\<open>Date.now()\<close>, \<open>fault s\<close> is the message
  of the error the datastore throws on statement \<open>s\<close> (if it does), and \<open>id_eq i x\<close> is
  SQLite's comparison \<^verbatim>\<open>id = ?\<close> of an INTEGER PRIMARY KEY \<open>i\<close> with the bound
  JavaScript value \<open>x\<close>.
\<close>

record env =
  now_iso :: string
  now_ms :: nat
  fault :: "stmt \<Rightarrow> string option"
  id_eq :: "int \<Rightarrow> jsval \<Rightarrow> bool"

text \<open>What reaches the \<^verbatim>\<open>catch\<close> of a handler: a call of \<^verbatim>\<open>trim\<close> on a value that has no
  such method, the violation of \<open>orders.order_code UNIQUE\<close>, or another datastore error.\<close>

datatype exn = TypeError | UniqueViolation | D1Fault string

text \<open>
  The JSON responses:
  \<^item> \<open>OrderCreated c i d t\<close> is \<^verbatim>\<open>{success: true, order_code: c, id: i, discount: d, total: t}\<close>;
  \<^item> \<open>VoucherValid i c a\<close> is \<^verbatim>\<open>{success: true, data: {id: i, code: c, discount_amount: a}}\<close>;
  \<^item> \<open>Done\<close> is \<^verbatim>\<open>{success: true}\<close>;
  \<^item> \<open>Failure st msg\<close> is \<^verbatim>\<open>{success: false, error: msg}\<close> with HTTP status \<open>st\<close>;
  \<^item> \<open>ServerError x\<close> is \<^verbatim>\<open>{success: false, error: e.message}\<close> with status 500, from
    the \<^verbatim>\<open>catch\<close>.
\<close>

datatype response =
    OrderCreated string int int int
  | VoucherValid int string int
  | Done
  | Failure nat string
  | ServerError exn

subsection \<open>The statements\<close>

text \<open>\<^verbatim>\<open>SELECT * FROM products WHERE id=? AND is_active=1\<close>, first row.\<close>

definition select_product :: "env \<Rightarrow> db \<Rightarrow> jsval \<Rightarrow> product_row option" where
  "select_product e d pid = find (\<lambda>p. id_eq e (p_id p) pid \<and> p_is_active p = 1) (products d)"

text \<open>\<^verbatim>\<open>SELECT * FROM vouchers WHERE code=? AND is_active=1 AND valid_from<=? AND valid_to>=?\<close>,
  first row; the same statement in both public handlers.\<close>

definition select_voucher :: "db \<Rightarrow> string \<Rightarrow> string \<Rightarrow> voucher_row option" where
  "select_voucher d c now =
     find (\<lambda>v. v_code v = c \<and> v_is_active v = 1 \<and> v_valid_from v \<le> now \<and> v_valid_to v \<ge> now)
       (vouchers d)"

text \<open>\<^verbatim>\<open>UPDATE vouchers SET used_count=used_count+1 WHERE id=?\<close>.\<close>

definition increment_used :: "int \<Rightarrow> db \<Rightarrow> db" where
  "increment_used i d =
     d\<lparr>vouchers :=
         map (\<lambda>v. if v_id v = i then v\<lparr>v_used_count := v_used_count v + 1\<rparr> else v) (vouchers d)\<rparr>"

text \<open>\<^verbatim>\<open>INSERT INTO orders (...) VALUES (...)\<close>: it throws on a datastore fault or when
  the order code is already in the table; otherwise the row gets the next id and the
  default status, and \<open>last_row_id\<close> is returned.\<close>

definition insert_order :: "env \<Rightarrow> db \<Rightarrow> order_row \<Rightarrow> exn + (int \<times> db)" where
  "insert_order e d row =
     (case fault e InsertOrder of
        Some m \<Rightarrow> Inl (D1Fault m)
      | None \<Rightarrow>
          if o_order_code row \<in> set (map o_order_code (orders d)) then Inl UniqueViolation
          else let i = orders_seq d + 1
               in Inr (i, d\<lparr>orders := orders d @ [row\<lparr>o_id := i, o_status := ''pending''\<rparr>],
                             orders_seq := i\<rparr>))"

subsection \<open>POST /api/orders\<close>

text \<open>\<^verbatim>\<open>parseInt(quantity) || 1\<close>: \<open>NaN\<close> and \<open>0\<close> are falsy.\<close>

definition qty_of :: "jsval \<Rightarrow> int" where
  "qty_of q = (case parseInt q of None \<Rightarrow> 1 | Some n \<Rightarrow> if n = 0 then 1 else n)"

text \<open>
  The voucher block (\<^verbatim>\<open>if (voucher_code && voucher_code.trim()) { ... }\<close>). \<open>Inl r\<close> is
  an early return or a throw, with the datastore as it was; \<open>Inr (discount, d')\<close> is
  falling through to the pricing with the datastore as the block leaves it.
\<close>

definition voucher_block :: "env \<Rightarrow> db \<Rightarrow> jsval \<Rightarrow> response + (int \<times> db)" where
  "voucher_block e d vc =
     (if \<not> truthy vc then Inr (0, d)
      else case vc of
        JStr s \<Rightarrow>
          if trim s = [] then Inr (0, d)
          else (case fault e SelectVoucher of
                  Some m \<Rightarrow> Inl (ServerError (D1Fault m))
                | None \<Rightarrow>
                    (case select_voucher d (toUpperCase (trim s)) (now_iso e) of
                       None \<Rightarrow> Inl (Failure 400 ''INVALID_VOUCHER'')
                     | Some voucher \<Rightarrow>
                         if v_usage_limit voucher > 0 \<and> v_used_count voucher \<ge> v_usage_limit voucher
                         then Inl (Failure 400 ''VOUCHER_LIMIT'')
                         else (case fault e UpdateVoucher of
                                 Some m \<Rightarrow> Inl (ServerError (D1Fault m))
                               | None \<Rightarrow>
                                   Inr (v_discount_amount voucher,
                                        increment_used (v_id voucher) d))))
      | _ \<Rightarrow> Inl (ServerError TypeError))"

text \<open>\<^verbatim>\<open>voucher_code ? voucher_code.trim().toUpperCase() : ''\<close>, bound to the insert; a
  truthy value that is not a string has thrown in the voucher block before.\<close>

definition stored_voucher_code :: "jsval \<Rightarrow> string" where
  "stored_voucher_code vc = (case vc of JStr s \<Rightarrow> toUpperCase (trim s) | _ \<Rightarrow> [])"

definition createOrder :: "env \<Rightarrow> db \<Rightarrow> body \<Rightarrow> response \<times> db" where
  "createOrder e d b =
     (if \<not> truthy (customer_name b) \<or> \<not> truthy (customer_phone b)
         \<or> \<not> truthy (customer_address b) \<or> \<not> truthy (product_id b)
      then (Failure 400 ''Missing required fields'', d)
      else case fault e SelectProduct of
        Some m \<Rightarrow> (ServerError (D1Fault m), d)
      | None \<Rightarrow>
          (case select_product e d (product_id b) of
             None \<Rightarrow> (Failure 404 ''Product not found'', d)
           | Some product \<Rightarrow>
               let qty = qty_of (quantity b) in
               (case voucher_block e d (voucher_code b) of
                  Inl r \<Rightarrow> (r, d)
                | Inr (discount, d1) \<Rightarrow>
                    let subtotal = p_price product * qty;
                        total = max 0 (subtotal - discount);
                        orderCode = orderCode_of (now_ms e)
                    in (case insert_order e d1
                              \<lparr>o_id = 0, o_order_code = orderCode,
                               o_customer_name = customer_name b,
                               o_customer_phone = customer_phone b,
                               o_customer_address = customer_address b,
                               o_product_id = product_id b,
                               o_product_name = p_name product,
                               o_product_price = p_price product,
                               o_color = js_or (color b) (JStr []),
                               o_size = js_or (size_field b) (JStr []),
                               o_quantity = qty,
                               o_total_price = total,
                               o_voucher_code = stored_voucher_code (voucher_code b),
                               o_discount_amount = discount,
                               o_note = js_or (note_field b) (JStr []),
                               o_status = []\<rparr> of
                          Inl x \<Rightarrow> (ServerError x, d1)
                        | Inr (last_row_id, d2) \<Rightarrow>
                            (OrderCreated orderCode last_row_id discount total, d2)))))"

subsection \<open>POST /api/vouchers/validate\<close>

definition validateVoucher :: "env \<Rightarrow> db \<Rightarrow> jsval \<Rightarrow> response \<times> db" where
  "validateVoucher e d code =
     (if \<not> truthy code then (Failure 400 ''MISSING_CODE'', d)
      else case code of
        JStr s \<Rightarrow>
          (case fault e SelectVoucher of
             Some m \<Rightarrow> (ServerError (D1Fault m), d)
           | None \<Rightarrow>
               (case select_voucher d (toUpperCase (trim s)) (now_iso e) of
                  None \<Rightarrow> (Failure 400 ''INVALID_VOUCHER'', d)
                | Some voucher \<Rightarrow>
                    if v_usage_limit voucher > 0 \<and> v_used_count voucher \<ge> v_usage_limit voucher
                    then (Failure 400 ''VOUCHER_LIMIT'', d)
                    else (VoucherValid (v_id voucher) (v_code voucher)
                            (v_discount_amount voucher), d)))
      | _ \<Rightarrow> (ServerError TypeError, d))"

subsection \<open>PATCH /api/admin/vouchers/:id/toggle and DELETE /api/admin/vouchers/:id\<close>

text \<open>The id is the text of the route parameter.\<close>

definition toggleVoucher :: "env \<Rightarrow> db \<Rightarrow> string \<Rightarrow> response \<times> db" where
  "toggleVoucher e d i =
     (case fault e ToggleVoucher of
        Some m \<Rightarrow> (ServerError (D1Fault m), d)
      | None \<Rightarrow>
          (Done, d\<lparr>vouchers :=
                     map (\<lambda>v. if id_eq e (v_id v) (JStr i)
                               then v\<lparr>v_is_active := (if v_is_active v = 1 then 0 else 1)\<rparr>
                               else v) (vouchers d)\<rparr>))"

definition deleteVoucher :: "env \<Rightarrow> db \<Rightarrow> string \<Rightarrow> response \<times> db" where
  "deleteVoucher e d i =
     (case fault e DeleteVoucher of
        Some m \<Rightarrow> (ServerError (D1Fault m), d)
      | None \<Rightarrow>
          (Done, d\<lparr>vouchers := filter (\<lambda>v. \<not> id_eq e (v_id v) (JStr i)) (vouchers d)\<rparr>))"

subsection \<open>Runs of order requests, and predicates used to state the properties\<close>

text \<open>Sequential execution: each request runs to its response on the datastore the
  previous one left.\<close>

fun run_orders :: "db \<Rightarrow> (env \<times> body) list \<Rightarrow> response list \<times> db" where
  "run_orders d [] = ([], d)"
| "run_orders d ((e, b) # rest) =
     (let (r, d1) = createOrder e d b; (rs, d2) = run_orders d1 rest in (r # rs, d2))"

text \<open>An active voucher matches code \<open>c\<close> at time \<open>now\<close>, in the words of the contract of
  the validator.\<close>

definition matching_voucher :: "db \<Rightarrow> string \<Rightarrow> string \<Rightarrow> bool" where
  "matching_voucher d c now =
     (\<exists>v \<in> set (vouchers d). v_code v = c \<and> v_is_active v = 1 \<and> v_valid_from v \<le> now \<and> now \<le> v_valid_to v)"

text \<open>The invariant of the data model: \<open>used_count \<le> usage_limit\<close> when \<open>usage_limit > 0\<close>.\<close>

definition limit_inv :: "db \<Rightarrow> bool" where
  "limit_inv d = (\<forall>v \<in> set (vouchers d). v_usage_limit v > 0 \<longrightarrow> v_used_count v \<le> v_usage_limit v)"

text \<open>What the schema guarantees of the voucher table: \<open>id\<close> is its primary key and
  \<open>code\<close> is UNIQUE.\<close>

definition keys_ok :: "db \<Rightarrow> bool" where
  "keys_ok d = (distinct (map v_id (vouchers d)) \<and> distinct (map v_code (vouchers d)))"

text \<open>No statement of \<^verbatim>\<open>POST /api/orders\<close> throws for a reason outside the rows.\<close>

definition no_fault :: "env \<Rightarrow> bool" where
  "no_fault e = (fault e SelectProduct = None \<and> fault e SelectVoucher = None
                 \<and> fault e UpdateVoucher = None \<and> fault e InsertOrder = None)"

text \<open>The request passes the checks that precede the voucher block: the required
  fields are present and the product is found.\<close>

definition passes_product_checks :: "env \<Rightarrow> db \<Rightarrow> body \<Rightarrow> bool" where
  "passes_product_checks e d b =
     (truthy (customer_name b) \<and> truthy (customer_phone b) \<and> truthy (customer_address b)
      \<and> truthy (product_id b) \<and> fault e SelectProduct = None
      \<and> select_product e d (product_id b) \<noteq> None)"

text \<open>The pricing of lines 2091-2092 is exact on doubles: the price, the quantity and the
  discount are safe integers, and so are the subtotal and the difference computed from
  them.\<close>

definition exact_pricing :: "int \<Rightarrow> int \<Rightarrow> int \<Rightarrow> bool" where
  "exact_pricing price qty discount =
     (safe_integer price \<and> safe_integer qty \<and> safe_integer discount
      \<and> safe_integer (price * qty) \<and> safe_integer (price * qty - discount))"

text \<open>No voucher is applied: the field is falsy or blank.\<close>

definition no_voucher :: "jsval \<Rightarrow> bool" where
  "no_voucher vc = (\<not> truthy vc \<or> (\<exists>s. vc = JStr s \<and> trim s = []))"

text \<open>The row that \<^verbatim>\<open>POST /api/orders\<close> binds to its insert, for a product and a discount.\<close>

definition new_row :: "env \<Rightarrow> body \<Rightarrow> product_row \<Rightarrow> int \<Rightarrow> order_row" where
  "new_row e b product discount =
     \<lparr>o_id = 0, o_order_code = orderCode_of (now_ms e),
      o_customer_name = customer_name b,
      o_customer_phone = customer_phone b,
      o_customer_address = customer_address b,
      o_product_id = product_id b,
      o_product_name = p_name product,
      o_product_price = p_price product,
      o_color = js_or (color b) (JStr []),
      o_size = js_or (size_field b) (JStr []),
      o_quantity = qty_of (quantity b),
      o_total_price = max 0 (p_price product * qty_of (quantity b) - discount),
      o_voucher_code = stored_voucher_code (voucher_code b),
      o_discount_amount = discount,
      o_note = js_or (note_field b) (JStr []),
      o_status = []\<rparr>"

subsection \<open>Redemptions of a voucher in a run\<close>

text \<open>The request names the voucher code \<open>code\<close>: its \<open>voucher_code\<close> is a non-blank
  string that normalizes to it.\<close>

definition names_code :: "string \<Rightarrow> body \<Rightarrow> bool" where
  "names_code code b = (\<exists>c. voucher_code b = JStr c \<and> trim c \<noteq> [] \<and> normalize_code c = code)"

text \<open>A request that redeems voucher \<open>v\<close> and has no other reason to fail: it passes the
  product checks, no statement throws, it names the code of \<open>v\<close>, and \<open>v\<close> is active and
  within its validity window at the time of the request.\<close>

definition redeems :: "db \<Rightarrow> voucher_row \<Rightarrow> env \<times> body \<Rightarrow> bool" where
  "redeems d v r =
     (passes_product_checks (fst r) d (snd r) \<and> no_fault (fst r) \<and> names_code (v_code v) (snd r)
      \<and> v_is_active v = 1 \<and> v_valid_from v \<le> now_iso (fst r) \<and> now_iso (fst r) \<le> v_valid_to v)"

text \<open>The successful redemptions of a code in a run: the requests that name it and were
  answered with a created order.\<close>

fun is_created :: "response \<Rightarrow> bool" where
  "is_created (OrderCreated oc i disc tot) = True"
| "is_created _ = False"

fun redemptions :: "string \<Rightarrow> response list \<Rightarrow> (env \<times> body) list \<Rightarrow> nat" where
  "redemptions code (r # rs) (q # qs) =
     (if is_created r \<and> names_code code (snd q) then 1 else 0) + redemptions code rs qs"
| "redemptions code _ _ = 0"

text \<open>The limit test of both public handlers.\<close>

definition limit_reached :: "voucher_row \<Rightarrow> bool" where
  "limit_reached v = (v_usage_limit v > 0 \<and> v_used_count v \<ge> v_usage_limit v)"

subsection \<open>A small shop, for concrete runs\<close>

definition shop_product :: product_row where
  "shop_product = \<lparr>p_id = 1, p_name = ''Ao thun'', p_price = 200000, p_is_active = 1\<rparr>"

definition shop_voucher :: voucher_row where
  "shop_voucher =
     \<lparr>v_id = 1, v_code = ''SALE50'', v_discount_amount = 50000,
      v_valid_from = ''2025-01-01T00:00:00.000Z'', v_valid_to = ''2025-12-31T23:59:00.000Z'',
      v_usage_limit = 2, v_used_count = 0, v_is_active = 1\<rparr>"

definition shop :: db where
  "shop = \<lparr>products = [shop_product], orders = [], vouchers = [shop_voucher], orders_seq = 0\<rparr>"

text \<open>An instance of the comparison \<^verbatim>\<open>id = ?\<close>: a number equals the id, and a text
  equals it when it is the id's decimal numeral.\<close>

definition plain_id_eq :: "int \<Rightarrow> jsval \<Rightarrow> bool" where
  "plain_id_eq i x =
     (case x of
        JNum n \<Rightarrow> n = i
      | JStr s \<Rightarrow> s \<noteq> [] \<and> list_all (is_digit 10) s \<and> int (digits_value 10 s) = i
      | _ \<Rightarrow> False)"

definition clock :: "string \<Rightarrow> nat \<Rightarrow> env" where
  "clock t ms = \<lparr>now_iso = t, now_ms = ms, fault = (\<lambda>_. None), id_eq = plain_id_eq\<rparr>"

definition june :: env where
  "june = clock ''2025-06-15T10:00:00.000Z'' 1750000000000"

definition request :: "jsval \<Rightarrow> jsval \<Rightarrow> body" where
  "request q vc =
     \<lparr>customer_name = JStr ''An'', customer_phone = JStr ''0900000000'',
      customer_address = JStr ''Ha Noi'', product_id = JNum 1, color = JStr ''red'',
      size_field = JUndefined, quantity = q, note_field = JNull, voucher_code = vc\<rparr>"

text \<open>The small shop with another voucher row in place of its own.\<close>

definition shop_with :: "voucher_row \<Rightarrow> db" where
  "shop_with v = \<lparr>products = [shop_product], orders = [], vouchers = [v], orders_seq = 0\<rparr>"

text \<open>A later reading of the clock, after the window of the shop's voucher has closed.\<close>

definition january :: env where
  "january = clock ''2026-01-10T09:30:00.000Z'' 1768037400000"

text \<open>The small shop after an order placed in the very millisecond of \<open>june\<close>: its order
  code is the one a second request at that reading of the clock generates.\<close>

definition earlier_order :: order_row where
  "earlier_order =
     (new_row june (request (JNum 1) JNull) shop_product 0)\<lparr>o_id := 1, o_status := ''pending''\<rparr>"

definition busy_shop :: db where
  "busy_shop = shop\<lparr>orders := [earlier_order], orders_seq := 1\<rparr>"

text \<open>Two later readings of the clock, and an order request with the shop's voucher.\<close>

definition july :: env where
  "july = clock ''2025-07-01T12:00:00.000Z'' 1751371200000"

definition august :: env where
  "august = clock ''2025-08-01T12:00:00.000Z'' 1754049600000"

definition sale_request :: body where
  "sale_request = request (JNum 1) (JStr ''sale50'')"

section \<open>Evaluation rules and inversion lemmas\<close>

text \<open>The equation of \<open>toString36\<close> as two conditional rules, so that the simplifier
  unfolds it on numerals and stops.\<close>

declare toString36.simps [simp del]

lemma toString36_small: "n < 36 \<Longrightarrow> toString36 n = [digit36 n]"
  by (simp add: toString36.simps)

lemma toString36_large:
  "36 \<le> n \<Longrightarrow> toString36 n = toString36 (n div 36) @ [digit36 (n mod 36)]"
  by (subst toString36.simps) simp

text \<open>The definitions that evaluate a concrete run.\<close>

lemmas eval_defs = createOrder_def voucher_block_def insert_order_def select_product_def select_voucher_def
  increment_used_def qty_of_def stored_voucher_code_def js_or_def orderCode_of_def toUpperCase_def upper_char_def
  trim_def is_space_def char_of_def bit_0 toString36_small toString36_large digit36_def
  parseInt_string_def parse_unsigned_def parse_digits_def is_digit_def digit_of_def digits_value_def
  shop_def shop_product_def shop_voucher_def clock_def june_def request_def plain_id_eq_def Let_def
  validateVoucher_def normalize_code_def matching_voucher_def passes_product_checks_def no_voucher_def
  toggleVoucher_def deleteVoucher_def no_fault_def keys_ok_def limit_inv_def
  shop_with_def january_def busy_shop_def earlier_order_def new_row_def

lemma find_None_iff2: "(find P xs = None) = (\<not> (\<exists>x\<in>set xs. P x))"
  by (induction xs) auto

lemma select_voucher_None: "(select_voucher d c now = None) = (\<not> matching_voucher d c now)"
  unfolding select_voucher_def matching_voucher_def find_None_iff2 by auto

lemma find_distinct_key:
  "distinct (map k xs) \<Longrightarrow> x \<in> set xs \<Longrightarrow> P x \<Longrightarrow> (\<And>y. P y \<Longrightarrow> k y = k x) \<Longrightarrow> find P xs = Some x"
proof (induction xs)
  case Nil then show ?case by simp
next
  case (Cons a xs)
  show ?case
  proof (cases "P a")
    case True
    with Cons.prems(4) have ka: "k a = k x" by blast
    have "a = x"
    proof (rule ccontr)
      assume "a \<noteq> x"
      with Cons.prems(2) have "x \<in> set xs" by simp
      then have "k x \<in> k ` set xs" by (rule imageI)
      moreover from Cons.prems(1) have "k a \<notin> k ` set xs" by simp
      ultimately show False using ka by simp
    qed
    with True show ?thesis by simp
  next
    case False
    with Cons.prems(2,3) have "x \<in> set xs" by auto
    moreover from Cons.prems(1) have "distinct (map k xs)" by simp
    ultimately have "find P xs = Some x" using Cons.IH Cons.prems(3,4) by blast
    with False show ?thesis by simp
  qed
qed


lemma distinct_key_eq:
  "distinct (map k xs) \<Longrightarrow> x \<in> set xs \<Longrightarrow> y \<in> set xs \<Longrightarrow> k x = k y \<Longrightarrow> x = y"
  by (induction xs) (auto simp: image_iff)

lemma select_voucher_unique:
  assumes "distinct (map v_code (vouchers d))" "v \<in> set (vouchers d)" "v_code v = c"
  shows "select_voucher d c now =
           (if v_is_active v = 1 \<and> v_valid_from v \<le> now \<and> now \<le> v_valid_to v then Some v else None)"
proof (cases "v_is_active v = 1 \<and> v_valid_from v \<le> now \<and> now \<le> v_valid_to v")
  case True
  have "find (\<lambda>v. v_code v = c \<and> v_is_active v = 1 \<and> v_valid_from v \<le> now \<and> v_valid_to v \<ge> now) (vouchers d) = Some v"
  proof (rule find_distinct_key[where k = v_code])
    show "distinct (map v_code (vouchers d))" by (rule assms(1))
    show "v \<in> set (vouchers d)" by (rule assms(2))
    show "v_code v = c \<and> v_is_active v = 1 \<and> v_valid_from v \<le> now \<and> now \<le> v_valid_to v"
      using True assms(3) by simp
    show "\<And>y. v_code y = c \<and> v_is_active y = 1 \<and> v_valid_from y \<le> now \<and> now \<le> v_valid_to y \<Longrightarrow> v_code y = v_code v"
      using assms(3) by simp
  qed
  with True show ?thesis by (simp add: select_voucher_def)
next
  case False
  have "\<not> matching_voucher d c now"
  proof
    assume "matching_voucher d c now"
    then obtain w where w: "w \<in> set (vouchers d)" "v_code w = c" "v_is_active w = 1"
      "v_valid_from w \<le> now" "now \<le> v_valid_to w" unfolding matching_voucher_def by blast
    from assms(1) w(1) assms(2) have "w = v"
      by (rule distinct_key_eq) (simp add: w(2) assms(3))
    with w False show False by simp
  qed
  then have "select_voucher d c now = None" by (simp add: select_voucher_None)
  with False show ?thesis by simp
qed

lemma voucher_block_Inr:
  assumes "voucher_block e d vc = Inr (disc, d1)"
  shows "(no_voucher vc \<and> disc = 0 \<and> d1 = d) \<or>
         (\<exists>s v. vc = JStr s \<and> trim s \<noteq> [] \<and> fault e SelectVoucher = None
            \<and> select_voucher d (normalize_code s) (now_iso e) = Some v
            \<and> \<not> (v_usage_limit v > 0 \<and> v_used_count v \<ge> v_usage_limit v)
            \<and> fault e UpdateVoucher = None
            \<and> disc = v_discount_amount v \<and> d1 = increment_used (v_id v) d)"
  using assms
  by (cases vc) (auto simp: voucher_block_def no_voucher_def normalize_code_def split: if_splits option.splits)

lemma voucher_block_Inl:
  assumes "voucher_block e d vc = Inl r"
  shows "(truthy vc \<and> (\<forall>s. vc \<noteq> JStr s) \<and> r = ServerError TypeError) \<or>
         (\<exists>s. vc = JStr s \<and> trim s \<noteq> [] \<and>
            ((\<exists>m. fault e SelectVoucher = Some m \<and> r = ServerError (D1Fault m)) \<or>
             (fault e SelectVoucher = None \<and>
               (case select_voucher d (normalize_code s) (now_iso e) of
                  None \<Rightarrow> r = Failure 400 ''INVALID_VOUCHER''
                | Some v \<Rightarrow>
                    if v_usage_limit v > 0 \<and> v_used_count v \<ge> v_usage_limit v
                    then r = Failure 400 ''VOUCHER_LIMIT''
                    else (\<exists>m. fault e UpdateVoucher = Some m \<and> r = ServerError (D1Fault m))))))"
  using assms
  by (cases vc) (auto simp: voucher_block_def normalize_code_def split: if_splits option.splits)

lemma createOrder_unfold:
  "createOrder e d b =
     (if \<not> (truthy (customer_name b) \<and> truthy (customer_phone b) \<and> truthy (customer_address b) \<and> truthy (product_id b))
      then (Failure 400 ''Missing required fields'', d)
      else case fault e SelectProduct of
        Some m \<Rightarrow> (ServerError (D1Fault m), d)
      | None \<Rightarrow>
          (case select_product e d (product_id b) of
             None \<Rightarrow> (Failure 404 ''Product not found'', d)
           | Some product \<Rightarrow>
               (case voucher_block e d (voucher_code b) of
                  Inl r \<Rightarrow> (r, d)
                | Inr (discount, d1) \<Rightarrow>
                    (case insert_order e d1 (new_row e b product discount) of
                       Inl x \<Rightarrow> (ServerError x, d1)
                     | Inr (last_row_id, d2) \<Rightarrow>
                         (OrderCreated (orderCode_of (now_ms e)) last_row_id discount
                            (max 0 (p_price product * qty_of (quantity b) - discount)), d2)))))"
  unfolding createOrder_def new_row_def Let_def by simp

lemma createOrder_success:
  assumes "createOrder e d b = (OrderCreated oc i disc tot, d')"
  shows "\<exists>product d1. passes_product_checks e d b
     \<and> select_product e d (product_id b) = Some product
     \<and> voucher_block e d (voucher_code b) = Inr (disc, d1)
     \<and> insert_order e d1 (new_row e b product disc) = Inr (i, d')
     \<and> oc = orderCode_of (now_ms e)
     \<and> tot = max 0 (p_price product * qty_of (quantity b) - disc)"
  using assms unfolding createOrder_unfold passes_product_checks_def
  by (auto split: if_splits option.splits sum.splits prod.splits dest: voucher_block_Inl)

lemma insert_order_Inr:
  assumes "insert_order e d row = Inr (i, d')"
  shows "fault e InsertOrder = None \<and> o_order_code row \<notin> o_order_code ` set (orders d)
     \<and> i = orders_seq d + 1
     \<and> d' = d\<lparr>orders := orders d @ [row\<lparr>o_id := i, o_status := ''pending''\<rparr>], orders_seq := i\<rparr>"
  using assms by (auto simp: insert_order_def Let_def split: option.splits if_splits)


lemma createOrder_failure:
  assumes "createOrder e d b = (Failure st msg, d')"
  shows "d' = d \<and>
    ((st, msg) = (400, ''Missing required fields'')
       \<and> \<not> (truthy (customer_name b) \<and> truthy (customer_phone b) \<and> truthy (customer_address b) \<and> truthy (product_id b))
     \<or> (st, msg) = (404, ''Product not found'')
       \<and> truthy (customer_name b) \<and> truthy (customer_phone b) \<and> truthy (customer_address b) \<and> truthy (product_id b)
       \<and> fault e SelectProduct = None \<and> select_product e d (product_id b) = None
     \<or> passes_product_checks e d b \<and> voucher_block e d (voucher_code b) = Inl (Failure st msg))"
  using assms unfolding createOrder_unfold passes_product_checks_def
  by (simp split: if_splits option.splits sum.splits prod.splits)

lemma voucher_block_Failure:
  assumes "voucher_block e d vc = Inl (Failure st msg)"
  shows "\<exists>s. vc = JStr s \<and> trim s \<noteq> [] \<and> fault e SelectVoucher = None \<and>
     ((st, msg) = (400, ''INVALID_VOUCHER'') \<and> select_voucher d (normalize_code s) (now_iso e) = None
      \<or> (st, msg) = (400, ''VOUCHER_LIMIT'') \<and>
         (\<exists>v. select_voucher d (normalize_code s) (now_iso e) = Some v
              \<and> v_usage_limit v > 0 \<and> v_used_count v \<ge> v_usage_limit v))"
  using assms
  by (cases vc) (auto simp: voucher_block_def normalize_code_def split: if_splits option.splits)


lemma validateVoucher_JStr:
  "validateVoucher e d (JStr c) =
     (if c = [] then (Failure 400 ''MISSING_CODE'', d)
      else case fault e SelectVoucher of
             Some m \<Rightarrow> (ServerError (D1Fault m), d)
           | None \<Rightarrow>
               (case select_voucher d (normalize_code c) (now_iso e) of
                  None \<Rightarrow> (Failure 400 ''INVALID_VOUCHER'', d)
                | Some voucher \<Rightarrow>
                    if v_usage_limit voucher > 0 \<and> v_used_count voucher \<ge> v_usage_limit voucher
                    then (Failure 400 ''VOUCHER_LIMIT'', d)
                    else (VoucherValid (v_id voucher) (v_code voucher) (v_discount_amount voucher), d)))"
  unfolding validateVoucher_def normalize_code_def by simp

lemma validateVoucher_Failure:
  assumes "fst (validateVoucher e d code) = Failure st msg"
  shows "(\<not> truthy code \<and> (st, msg) = (400, ''MISSING_CODE'')) \<or>
     (\<exists>c. code = JStr c \<and> c \<noteq> [] \<and> fault e SelectVoucher = None \<and>
        ((st, msg) = (400, ''INVALID_VOUCHER'') \<and> select_voucher d (normalize_code c) (now_iso e) = None
         \<or> (st, msg) = (400, ''VOUCHER_LIMIT'') \<and>
            (\<exists>v. select_voucher d (normalize_code c) (now_iso e) = Some v
                 \<and> v_usage_limit v > 0 \<and> v_used_count v \<ge> v_usage_limit v)))"
proof (cases code)
  case (JStr c)
  with assms show ?thesis
    unfolding JStr validateVoucher_JStr by (auto split: if_splits option.splits)
qed (use assms in \<open>auto simp: validateVoucher_def split: if_splits\<close>)

lemma voucher_block_JStr:
  "voucher_block e d (JStr c) =
     (if trim c = [] then Inr (0, d)
      else case fault e SelectVoucher of
             Some m \<Rightarrow> Inl (ServerError (D1Fault m))
           | None \<Rightarrow>
               (case select_voucher d (normalize_code c) (now_iso e) of
                  None \<Rightarrow> Inl (Failure 400 ''INVALID_VOUCHER'')
                | Some voucher \<Rightarrow>
                    if v_usage_limit voucher > 0 \<and> v_used_count voucher \<ge> v_usage_limit voucher
                    then Inl (Failure 400 ''VOUCHER_LIMIT'')
                    else (case fault e UpdateVoucher of
                            Some m \<Rightarrow> Inl (ServerError (D1Fault m))
                          | None \<Rightarrow> Inr (v_discount_amount voucher, increment_used (v_id voucher) d))))"
  unfolding voucher_block_def normalize_code_def by (auto simp: trim_def)

lemma createOrder_after_checks:
  assumes "passes_product_checks e d b" and "select_product e d (product_id b) = Some product"
  shows "createOrder e d b =
    (case voucher_block e d (voucher_code b) of
       Inl r \<Rightarrow> (r, d)
     | Inr (discount, d1) \<Rightarrow>
         (case insert_order e d1 (new_row e b product discount) of
            Inl x \<Rightarrow> (ServerError x, d1)
          | Inr (last_row_id, d2) \<Rightarrow>
              (OrderCreated (orderCode_of (now_ms e)) last_row_id discount
                 (max 0 (p_price product * qty_of (quantity b) - discount)), d2)))"
  unfolding createOrder_unfold using assms by (simp add: passes_product_checks_def)

lemma createOrder_before_checks:
  assumes "\<not> passes_product_checks e d b"
  shows "fst (createOrder e d b) = Failure 400 ''Missing required fields''
     \<or> fst (createOrder e d b) = Failure 404 ''Product not found''
     \<or> (\<exists>m. fst (createOrder e d b) = ServerError (D1Fault m))"
  unfolding createOrder_unfold using assms
  by (cases "fault e SelectProduct") (auto simp: passes_product_checks_def)

lemma voucher_block_Inl_shape:
  assumes "voucher_block e d vc = Inl r"
  shows "r = Failure 400 ''INVALID_VOUCHER'' \<or> r = Failure 400 ''VOUCHER_LIMIT'' \<or> (\<exists>x. r = ServerError x)"
  using assms
  by (cases vc) (auto simp: voucher_block_def split: if_splits option.splits)

lemma createOrder_ServerError:
  assumes "createOrder e d b = (ServerError x, d')"
  shows "(\<exists>m. fault e SelectProduct = Some m \<and> x = D1Fault m)
     \<or> (passes_product_checks e d b \<and>
         (voucher_block e d (voucher_code b) = Inl (ServerError x) \<and> d' = d
          \<or> (\<exists>product disc. select_product e d (product_id b) = Some product
                \<and> voucher_block e d (voucher_code b) = Inr (disc, d')
                \<and> insert_order e d' (new_row e b product disc) = Inl x)))"
  using assms unfolding createOrder_unfold passes_product_checks_def
  by (simp split: if_splits option.splits sum.splits prod.splits)

lemma insert_order_Inl:
  assumes "insert_order e d row = Inl x"
  shows "(\<exists>m. fault e InsertOrder = Some m \<and> x = D1Fault m)
     \<or> (fault e InsertOrder = None \<and> o_order_code row \<in> o_order_code ` set (orders d) \<and> x = UniqueViolation)"
  using assms by (auto simp: insert_order_def Let_def split: option.splits if_splits)

lemma createOrder_outcomes:
  "(\<exists>oc i disc tot. fst (createOrder e d b) = OrderCreated oc i disc tot)
    \<or> fst (createOrder e d b) \<in>
         {Failure 400 ''Missing required fields'', Failure 404 ''Product not found'',
          Failure 400 ''INVALID_VOUCHER'', Failure 400 ''VOUCHER_LIMIT''}
    \<or> (\<exists>x. fst (createOrder e d b) = ServerError x)"
proof (cases "passes_product_checks e d b")
  case False
  from createOrder_before_checks[OF this] show ?thesis by auto
next
  case True
  then obtain product where p: "select_product e d (product_id b) = Some product"
    by (auto simp: passes_product_checks_def)
  note co = createOrder_after_checks[OF True p]
  show ?thesis
  proof (cases "voucher_block e d (voucher_code b)")
    case (Inl r)
    with co have "fst (createOrder e d b) = r" by simp
    with voucher_block_Inl_shape[OF Inl] show ?thesis by auto
  next
    case (Inr q)
    obtain disc d1 where q: "q = (disc, d1)" by (cases q)
    show ?thesis
    proof (cases "insert_order e d1 (new_row e b product disc)")
      case (Inl x)
      with co Inr q have "fst (createOrder e d b) = ServerError x" by simp
      then show ?thesis by blast
    next
      case (Inr w)
      obtain i d2 where "w = (i, d2)" by (cases w)
      with co \<open>voucher_block e d (voucher_code b) = Inr q\<close> q Inr
      have "fst (createOrder e d b) = OrderCreated (orderCode_of (now_ms e)) i disc
              (max 0 (p_price product * qty_of (quantity b) - disc))" by simp
      then show ?thesis by blast
    qed
  qed
qed

lemma createOrder_INVALID_iff:
  "fst (createOrder e d b) = Failure 400 ''INVALID_VOUCHER'' \<longleftrightarrow>
     passes_product_checks e d b \<and>
     (\<exists>c. voucher_code b = JStr c \<and> trim c \<noteq> [] \<and> fault e SelectVoucher = None
          \<and> select_voucher d (normalize_code c) (now_iso e) = None)"
  (is "?L \<longleftrightarrow> ?R")
proof
  assume ?L
  then have "createOrder e d b = (Failure 400 ''INVALID_VOUCHER'', snd (createOrder e d b))"
    by (simp add: prod_eq_iff)
  from createOrder_failure[OF this]
  have p: "passes_product_checks e d b"
    and "voucher_block e d (voucher_code b) = Inl (Failure 400 ''INVALID_VOUCHER'')" by simp_all
  from voucher_block_Failure[OF this(2)] p show ?R by auto
next
  assume r: ?R
  then obtain c where c: "voucher_code b = JStr c" "trim c \<noteq> []" "fault e SelectVoucher = None"
    "select_voucher d (normalize_code c) (now_iso e) = None" by blast
  from r have p: "passes_product_checks e d b" ..
  then obtain product where "select_product e d (product_id b) = Some product"
    by (auto simp: passes_product_checks_def)
  note co = createOrder_after_checks[OF p this]
  show ?L unfolding co c(1) voucher_block_JStr using c(2-4) by simp
qed

lemma createOrder_LIMIT_iff:
  "fst (createOrder e d b) = Failure 400 ''VOUCHER_LIMIT'' \<longleftrightarrow>
     passes_product_checks e d b \<and>
     (\<exists>c v. voucher_code b = JStr c \<and> trim c \<noteq> [] \<and> fault e SelectVoucher = None
          \<and> select_voucher d (normalize_code c) (now_iso e) = Some v
          \<and> v_usage_limit v > 0 \<and> v_used_count v \<ge> v_usage_limit v)"
  (is "?L \<longleftrightarrow> ?R")
proof
  assume ?L
  then have "createOrder e d b = (Failure 400 ''VOUCHER_LIMIT'', snd (createOrder e d b))"
    by (simp add: prod_eq_iff)
  from createOrder_failure[OF this]
  have p: "passes_product_checks e d b"
    and "voucher_block e d (voucher_code b) = Inl (Failure 400 ''VOUCHER_LIMIT'')" by simp_all
  from voucher_block_Failure[OF this(2)] p show ?R by auto
next
  assume r: ?R
  then obtain c v where c: "voucher_code b = JStr c" "trim c \<noteq> []" "fault e SelectVoucher = None"
    "select_voucher d (normalize_code c) (now_iso e) = Some v"
    "v_usage_limit v > 0" "v_used_count v \<ge> v_usage_limit v" by blast
  from r have p: "passes_product_checks e d b" ..
  then obtain product where "select_product e d (product_id b) = Some product"
    by (auto simp: passes_product_checks_def)
  note co = createOrder_after_checks[OF p this]
  show ?L unfolding co c(1) voucher_block_JStr using c(2-6) by simp
qed

lemma createOrder_missing_iff:
  "fst (createOrder e d b) = Failure 400 ''Missing required fields'' \<longleftrightarrow>
     \<not> (truthy (customer_name b) \<and> truthy (customer_phone b) \<and> truthy (customer_address b)
        \<and> truthy (product_id b))"
  (is "?L \<longleftrightarrow> ?R")
proof
  assume ?L
  then have "createOrder e d b = (Failure 400 ''Missing required fields'', snd (createOrder e d b))"
    by (simp add: prod_eq_iff)
  from createOrder_failure[OF this] voucher_block_Failure[of e d "voucher_code b" 400 "''Missing required fields''"]
  show ?R by auto
next
  assume ?R then show ?L unfolding createOrder_unfold by simp
qed

lemma createOrder_not_found_iff:
  "fst (createOrder e d b) = Failure 404 ''Product not found'' \<longleftrightarrow>
     truthy (customer_name b) \<and> truthy (customer_phone b) \<and> truthy (customer_address b)
     \<and> truthy (product_id b) \<and> fault e SelectProduct = None
     \<and> select_product e d (product_id b) = None"
  (is "?L \<longleftrightarrow> ?R")
proof
  assume ?L
  then have "createOrder e d b = (Failure 404 ''Product not found'', snd (createOrder e d b))"
    by (simp add: prod_eq_iff)
  from createOrder_failure[OF this] voucher_block_Failure[of e d "voucher_code b" 404 "''Product not found''"]
  show ?R by auto
next
  assume ?R then show ?L unfolding createOrder_unfold by simp
qed

lemma validateVoucher_INVALID_iff:
  "fst (validateVoucher e d code) = Failure 400 ''INVALID_VOUCHER'' \<longleftrightarrow>
     (\<exists>c. code = JStr c \<and> c \<noteq> [] \<and> fault e SelectVoucher = None
          \<and> select_voucher d (normalize_code c) (now_iso e) = None)"
  (is "?L \<longleftrightarrow> ?R")
proof
  assume ?L
  from validateVoucher_Failure[OF this] show ?R by auto
next
  assume ?R
  then show ?L by (auto simp: validateVoucher_JStr)
qed


lemma voucher_block_frame:
  assumes "voucher_block e d vc = Inr (disc, d1)"
  shows "products d1 = products d \<and> orders d1 = orders d \<and> orders_seq d1 = orders_seq d"
  using voucher_block_Inr[OF assms] by (auto simp: increment_used_def)

lemma voucher_block_ServerError:
  assumes "voucher_block e d vc = Inl (ServerError x)"
  shows "(x = TypeError \<and> truthy vc \<and> (\<forall>s. vc \<noteq> JStr s))
      \<or> (\<exists>m. fault e SelectVoucher = Some m \<and> x = D1Fault m)
      \<or> (\<exists>m. fault e UpdateVoucher = Some m \<and> x = D1Fault m)"
  using assms
  by (cases vc) (auto simp: voucher_block_def split: if_splits option.splits)

lemma createOrder_OrderCreated:
  assumes "fst (createOrder e d b) = OrderCreated oc i disc tot"
  shows "oc = orderCode_of (now_ms e) \<and> i = orders_seq d + 1 \<and> 0 \<le> tot
     \<and> passes_product_checks e d b"
proof -
  from assms have "createOrder e d b = (OrderCreated oc i disc tot, snd (createOrder e d b))"
    by (simp add: prod_eq_iff)
  from createOrder_success[OF this] obtain product d1 where
    p: "passes_product_checks e d b"
    and vb: "voucher_block e d (voucher_code b) = Inr (disc, d1)"
    and ins: "insert_order e d1 (new_row e b product disc) = Inr (i, snd (createOrder e d b))"
    and oc: "oc = orderCode_of (now_ms e)"
    and tot: "tot = max 0 (p_price product * qty_of (quantity b) - disc)" by blast
  from insert_order_Inr[OF ins] voucher_block_frame[OF vb] have "i = orders_seq d + 1" by simp
  with p oc tot show ?thesis by simp
qed

lemma createOrder_ServerError_cause:
  assumes "fst (createOrder e d b) = ServerError x"
  shows "(x = TypeError \<and> truthy (voucher_code b) \<and> (\<forall>s. voucher_code b \<noteq> JStr s))
     \<or> (x = UniqueViolation \<and> orderCode_of (now_ms e) \<in> o_order_code ` set (orders d))
     \<or> (\<exists>m st. fault e st = Some m \<and> x = D1Fault m)"
proof -
  from assms have "createOrder e d b = (ServerError x, snd (createOrder e d b))"
    by (simp add: prod_eq_iff)
  from createOrder_ServerError[OF this]
  consider (a) m where "fault e SelectProduct = Some m" "x = D1Fault m"
    | (b) "voucher_block e d (voucher_code b) = Inl (ServerError x)"
    | (c) product disc where
        "voucher_block e d (voucher_code b) = Inr (disc, snd (createOrder e d b))"
        "insert_order e (snd (createOrder e d b)) (new_row e b product disc) = Inl x"
    by blast
  then show ?thesis
  proof cases
    case a then show ?thesis by blast
  next
    case b from voucher_block_ServerError[OF this] show ?thesis by blast
  next
    case c
    from voucher_block_frame[OF c(1)] insert_order_Inl[OF c(2)]
    show ?thesis by (auto simp: new_row_def)
  qed
qed

lemma is_space_upper_char: "is_space (upper_char c) = is_space c"
  by (auto simp: is_space_def upper_char_def Let_def)

lemma upper_char_idem: "upper_char (upper_char c) = upper_char c"
  by (auto simp: upper_char_def Let_def)

lemma toUpperCase_idem: "toUpperCase (toUpperCase s) = toUpperCase s"
  by (simp add: toUpperCase_def upper_char_idem)

lemma dropWhile_space_upper:
  "dropWhile is_space (map upper_char s) = map upper_char (dropWhile is_space s)"
  by (induction s) (simp_all add: is_space_upper_char)

lemma trim_toUpperCase: "trim (toUpperCase s) = toUpperCase (trim s)"
  by (simp add: trim_def toUpperCase_def dropWhile_space_upper rev_map)

lemma dropWhile_hd: "xs \<noteq> [] \<Longrightarrow> \<not> P (hd xs) \<Longrightarrow> dropWhile P xs = xs"
  by (cases xs) simp_all

lemma trim_idem: "trim (trim s) = trim s"
proof -
  define u where "u = dropWhile is_space s"
  define w where "w = dropWhile is_space (rev u)"
  have t: "trim s = rev w" by (simp add: trim_def u_def w_def)
  show ?thesis
  proof (cases "w = []")
    case True
    with t have e: "trim s = []" by simp
    have "trim [] = []" by (simp add: trim_def)
    with e show ?thesis by simp
  next
    case False
    have hw: "\<not> is_space (hd w)" using False unfolding w_def by (rule hd_dropWhile)
    from False have ru: "rev u \<noteq> []" by (auto simp: w_def)
    then have un: "u \<noteq> []" by simp
    then have hu: "\<not> is_space (hd u)" unfolding u_def by (rule hd_dropWhile)
    obtain ys where ys: "rev u = ys @ w" unfolding w_def
      by (metis takeWhile_dropWhile_id)
    with False have "last w = last (rev u)" by simp
    also have "\<dots> = hd u" using un by (simp add: last_rev)
    finally have lw: "\<not> is_space (last w)" using hu by simp
    from False lw have "\<not> is_space (hd (rev w))" by (simp add: hd_rev)
    with False have 1: "dropWhile is_space (rev w) = rev w" by (intro dropWhile_hd) simp_all
    from False hw have 2: "dropWhile is_space w = w" by (rule dropWhile_hd)
    show ?thesis unfolding t by (simp add: trim_def 1 2)
  qed
qed

lemma trim_normalize: "trim (normalize_code s) = normalize_code s"
  by (simp add: normalize_code_def trim_toUpperCase trim_idem)

lemma normalize_idem: "normalize_code (normalize_code s) = normalize_code s"
  by (simp add: normalize_code_def trim_toUpperCase trim_idem toUpperCase_idem)

lemma normalize_empty: "normalize_code s = [] \<longleftrightarrow> trim s = []"
  by (simp add: normalize_code_def toUpperCase_def)

lemma voucher_block_normalized:
  "voucher_block e d (JStr (normalize_code c)) = voucher_block e d (JStr c)"
  by (simp add: voucher_block_JStr trim_normalize normalize_idem normalize_empty
      cong: option.case_cong)

lemma new_row_normalized:
  "new_row e (b\<lparr>voucher_code := JStr (normalize_code c)\<rparr>) product disc
     = new_row e (b\<lparr>voucher_code := JStr c\<rparr>) product disc"
  using normalize_idem[of c]
  by (simp add: new_row_def stored_voucher_code_def normalize_code_def)

lemma createOrder_normalized:
  "createOrder e d (b\<lparr>voucher_code := JStr (normalize_code c)\<rparr>)
     = createOrder e d (b\<lparr>voucher_code := JStr c\<rparr>)"
  unfolding createOrder_unfold
  by (simp add: voucher_block_normalized new_row_normalized
      cong: option.case_cong sum.case_cong prod.case_cong)

lemma validateVoucher_normalized:
  "trim c \<noteq> [] \<Longrightarrow> validateVoucher e d (JStr (normalize_code c)) = validateVoucher e d (JStr c)"
  by (auto simp: validateVoucher_JStr normalize_idem normalize_empty trim_def
      cong: option.case_cong)

lemma trim_Nil: "trim [] = []"
  by (simp add: trim_def)

lemma select_voucher_mem: "select_voucher d c now = Some v \<Longrightarrow> v \<in> set (vouchers d)"
  unfolding select_voucher_def by (auto simp: find_Some_iff)

lemma select_voucher_code: "select_voucher d c now = Some v \<Longrightarrow> v_code v = c"
  unfolding select_voucher_def by (auto simp: find_Some_iff)

lemma increment_used_mem:
  "v \<in> set (vouchers d) \<Longrightarrow>
     v\<lparr>v_used_count := v_used_count v + 1\<rparr> \<in> set (vouchers (increment_used (v_id v) d))"
  by (force simp: increment_used_def)

lemma validateVoucher_same_db: "snd (validateVoucher e d code) = d"
  by (simp add: validateVoucher_def split: jsval.splits option.splits)

lemma insert_order_vouchers:
  "insert_order e d row = Inr (i, d') \<Longrightarrow> vouchers d' = vouchers d \<and> products d' = products d"
  by (drule insert_order_Inr) simp

lemma createOrder_vouchers:
  "vouchers (snd (createOrder e d b)) =
     (if passes_product_checks e d b
      then (case voucher_block e d (voucher_code b) of Inl r \<Rightarrow> vouchers d | Inr p \<Rightarrow> vouchers (snd p))
      else vouchers d)"
proof (cases "passes_product_checks e d b")
  case True
  then obtain product where p: "select_product e d (product_id b) = Some product"
    by (auto simp: passes_product_checks_def)
  note co = createOrder_after_checks[OF True p]
  show ?thesis
  proof (cases "voucher_block e d (voucher_code b)")
    case (Inl r)
    with co True show ?thesis by simp
  next
    case (Inr q)
    obtain disc d1 where q: "q = (disc, d1)" by (cases q)
    show ?thesis
    proof (cases "insert_order e d1 (new_row e b product disc)")
      case (Inl x)
      with co Inr q True show ?thesis by simp
    next
      case (Inr w)
      obtain i d2 where w: "w = (i, d2)" by (cases w)
      from Inr w have "vouchers d2 = vouchers d1" by (auto dest: insert_order_vouchers)
      with co \<open>voucher_block e d (voucher_code b) = Inr q\<close> q Inr w True show ?thesis by simp
    qed
  qed
next
  case False
  then have "snd (createOrder e d b) = d"
    unfolding createOrder_unfold passes_product_checks_def
    by (cases "fault e SelectProduct") auto
  with False show ?thesis by simp
qed

lemma createOrder_products: "products (snd (createOrder e d b)) = products d"
proof (cases "passes_product_checks e d b")
  case True
  then obtain product where p: "select_product e d (product_id b) = Some product"
    by (auto simp: passes_product_checks_def)
  note co = createOrder_after_checks[OF True p]
  show ?thesis
  proof (cases "voucher_block e d (voucher_code b)")
    case (Inl r)
    with co show ?thesis by simp
  next
    case (Inr q)
    obtain disc d1 where q: "q = (disc, d1)" by (cases q)
    from Inr q have f: "products d1 = products d" by (auto dest: voucher_block_frame)
    show ?thesis
    proof (cases "insert_order e d1 (new_row e b product disc)")
      case (Inl x)
      with co Inr q f show ?thesis by simp
    next
      case (Inr w)
      obtain i d2 where w: "w = (i, d2)" by (cases w)
      from Inr w have "products d2 = products d1" by (auto dest: insert_order_vouchers)
      with co \<open>voucher_block e d (voucher_code b) = Inr q\<close> q Inr w f show ?thesis by simp
    qed
  qed
next
  case False
  then have "snd (createOrder e d b) = d"
    unfolding createOrder_unfold passes_product_checks_def
    by (cases "fault e SelectProduct") auto
  then show ?thesis by simp
qed

text \<open>What a run of order creation does to the voucher table.\<close>

lemma createOrder_voucher_step:
  obtains (same) "vouchers (snd (createOrder e d b)) = vouchers d"
      "\<not> is_created (fst (createOrder e d b)) \<or> no_voucher (voucher_code b)"
    | (bump) c w where "voucher_code b = JStr c" "trim c \<noteq> []"
      "select_voucher d (normalize_code c) (now_iso e) = Some w" "\<not> limit_reached w"
      "vouchers (snd (createOrder e d b)) = vouchers (increment_used (v_id w) d)"
proof (cases "passes_product_checks e d b")
  case False
  then have "fst (createOrder e d b) = Failure 400 ''Missing required fields''
     \<or> fst (createOrder e d b) = Failure 404 ''Product not found''
     \<or> (\<exists>m. fst (createOrder e d b) = ServerError (D1Fault m))"
    by (rule createOrder_before_checks)
  then have "\<not> is_created (fst (createOrder e d b))" by auto
  moreover from False have "vouchers (snd (createOrder e d b)) = vouchers d"
    by (simp add: createOrder_vouchers)
  ultimately show ?thesis using same by blast
next
  case True
  show ?thesis
  proof (cases "voucher_block e d (voucher_code b)")
    case (Inl r)
    with True have v: "vouchers (snd (createOrder e d b)) = vouchers d"
      by (simp add: createOrder_vouchers)
    have "\<not> is_created (fst (createOrder e d b))"
    proof
      assume "is_created (fst (createOrder e d b))"
      then obtain oc i disc tot where "fst (createOrder e d b) = OrderCreated oc i disc tot"
        by (cases "fst (createOrder e d b)") auto
      then have "createOrder e d b = (OrderCreated oc i disc tot, snd (createOrder e d b))"
        by (simp add: prod_eq_iff)
      from createOrder_success[OF this] Inl show False by auto
    qed
    with v show ?thesis using same by blast
  next
    case (Inr q)
    obtain disc d1 where q: "q = (disc, d1)" by (cases q)
    with Inr True have v: "vouchers (snd (createOrder e d b)) = vouchers d1"
      by (simp add: createOrder_vouchers)
    from Inr q have "voucher_block e d (voucher_code b) = Inr (disc, d1)" by simp
    from voucher_block_Inr[OF this]
    consider (n) "no_voucher (voucher_code b)" "d1 = d"
      | (s) c w where "voucher_code b = JStr c" "trim c \<noteq> []"
          "select_voucher d (normalize_code c) (now_iso e) = Some w"
          "\<not> (v_usage_limit w > 0 \<and> v_used_count w \<ge> v_usage_limit w)"
          "d1 = increment_used (v_id w) d"
      by blast
    then show ?thesis
    proof cases
      case n
      with v show ?thesis using same by simp
    next
      case s
      with v show ?thesis using bump[of c w] by (simp add: limit_reached_def)
    qed
  qed
qed


lemma increment_used_keys:
  "map v_id (vouchers (increment_used i d)) = map v_id (vouchers d)"
  "map v_code (vouchers (increment_used i d)) = map v_code (vouchers d)"
  by (simp_all add: increment_used_def comp_def)

lemma increment_used_row:
  assumes "distinct (map v_id (vouchers d))" and "v \<in> set (vouchers d)" and "w \<in> set (vouchers d)"
  shows "(if w = v then v\<lparr>v_used_count := v_used_count v + 1\<rparr> else v)
           \<in> set (vouchers (increment_used (v_id w) d))"
proof -
  have "v_id v = v_id w \<longleftrightarrow> w = v"
    using distinct_key_eq[OF assms(1) assms(3) assms(2)] by auto
  moreover have "(if v_id v = v_id w then v\<lparr>v_used_count := v_used_count v + 1\<rparr> else v)
      \<in> set (vouchers (increment_used (v_id w) d))"
    using assms(2) by (force simp: increment_used_def)
  ultimately show ?thesis by simp
qed

lemma increment_used_inv:
  assumes "distinct (map v_id (vouchers d))" and "w \<in> set (vouchers d)" and "\<not> limit_reached w"
    and "limit_inv d"
  shows "limit_inv (increment_used (v_id w) d)"
  unfolding limit_inv_def
proof (intro ballI impI)
  fix r assume r: "r \<in> set (vouchers (increment_used (v_id w) d))" and l: "0 < v_usage_limit r"
  from r obtain r0 where r0: "r0 \<in> set (vouchers d)"
    "r = (if v_id r0 = v_id w then r0\<lparr>v_used_count := v_used_count r0 + 1\<rparr> else r0)"
    by (auto simp: increment_used_def)
  show "v_used_count r \<le> v_usage_limit r"
  proof (cases "v_id r0 = v_id w")
    case True
    with distinct_key_eq[OF assms(1) r0(1) assms(2)] have "r0 = w" by simp
    with r0(2) True l assms(3) show ?thesis by (auto simp: limit_reached_def)
  next
    case False
    with r0 l assms(4) show ?thesis by (auto simp: limit_inv_def)
  qed
qed

lemma createOrder_keys:
  "map v_id (vouchers (snd (createOrder e d b))) = map v_id (vouchers d)
   \<and> map v_code (vouchers (snd (createOrder e d b))) = map v_code (vouchers d)"
  by (rule createOrder_voucher_step[of e d b]) (simp_all add: increment_used_keys)

lemma createOrder_keys_ok: "keys_ok d \<Longrightarrow> keys_ok (snd (createOrder e d b))"
  by (simp add: keys_ok_def createOrder_keys)

lemma createOrder_limit_inv:
  assumes "distinct (map v_id (vouchers d))" and "limit_inv d"
  shows "limit_inv (snd (createOrder e d b))"
proof (rule createOrder_voucher_step[of e d b])
  assume "vouchers (snd (createOrder e d b)) = vouchers d"
  with assms(2) show ?thesis by (simp add: limit_inv_def)
next
  fix c w
  assume w: "select_voucher d (normalize_code c) (now_iso e) = Some w" "\<not> limit_reached w"
    and v: "vouchers (snd (createOrder e d b)) = vouchers (increment_used (v_id w) d)"
  from increment_used_inv[OF assms(1) select_voucher_mem[OF w(1)] w(2) assms(2)] v
  show ?thesis by (simp add: limit_inv_def)
qed

lemma run_orders_inv:
  "distinct (map v_id (vouchers d)) \<Longrightarrow> limit_inv d \<Longrightarrow> limit_inv (snd (run_orders d reqs))"
proof (induction reqs arbitrary: d)
  case Nil
  then show ?case by simp
next
  case (Cons q reqs)
  obtain e b where q: "q = (e, b)" by (cases q)
  let ?d1 = "snd (createOrder e d b)"
  have "distinct (map v_id (vouchers ?d1))" using Cons.prems(1) by (simp add: createOrder_keys)
  moreover have "limit_inv ?d1" using Cons.prems by (rule createOrder_limit_inv)
  ultimately have "limit_inv (snd (run_orders ?d1 reqs))" by (rule Cons.IH)
  then show ?case by (simp add: q split_beta Let_def)
qed

lemma toggleVoucher_inv: "limit_inv d \<Longrightarrow> limit_inv (snd (toggleVoucher e d i))"
  by (cases "fault e ToggleVoucher") (auto simp: toggleVoucher_def limit_inv_def)

lemma deleteVoucher_inv: "limit_inv d \<Longrightarrow> limit_inv (snd (deleteVoucher e d i))"
  by (cases "fault e DeleteVoucher") (auto simp: deleteVoucher_def limit_inv_def)


lemma names_code_voucher: "names_code code b \<Longrightarrow> \<not> no_voucher (voucher_code b)"
  by (auto simp: names_code_def no_voucher_def trim_Nil)

lemma run_orders_Cons:
  "run_orders d ((e, b) # reqs) =
     (fst (createOrder e d b) # fst (run_orders (snd (createOrder e d b)) reqs),
      snd (run_orders (snd (createOrder e d b)) reqs))"
  by (simp add: split_beta Let_def)

lemma redemptions_bound:
  "keys_ok d \<Longrightarrow> v \<in> set (vouchers d) \<Longrightarrow> 0 < v_usage_limit v
   \<Longrightarrow> v_used_count v \<le> v_usage_limit v
   \<Longrightarrow> int (redemptions (v_code v) (fst (run_orders d reqs)) reqs) \<le> v_usage_limit v - v_used_count v"
proof (induction reqs arbitrary: d v)
  case Nil
  then show ?case by simp
next
  case (Cons q reqs)
  obtain e b where q: "q = (e, b)" by (cases q)
  let ?r = "fst (createOrder e d b)" and ?d1 = "snd (createOrder e d b)"
  let ?now = "if is_created ?r \<and> names_code (v_code v) b then 1 else 0 :: nat"
  have k1: "keys_ok ?d1" using Cons.prems(1) by (rule createOrder_keys_ok)
  have red: "redemptions (v_code v) (fst (run_orders d (q # reqs))) (q # reqs)
      = ?now + redemptions (v_code v) (fst (run_orders ?d1 reqs)) reqs"
    by (simp add: q run_orders_Cons del: run_orders.simps)
  from Cons.prems(1) have di: "distinct (map v_id (vouchers d))" and dc: "distinct (map v_code (vouchers d))"
    by (simp_all add: keys_ok_def)
  show ?case
  proof (rule createOrder_voucher_step[of e d b])
    assume same: "vouchers ?d1 = vouchers d" "\<not> is_created ?r \<or> no_voucher (voucher_code b)"
    then have "?now = 0" using names_code_voucher[of "v_code v" b] by auto
    moreover from same(1) Cons.prems(2) have "v \<in> set (vouchers ?d1)" by simp
    from Cons.IH[OF k1 this Cons.prems(3,4)]
    have "int (redemptions (v_code v) (fst (run_orders ?d1 reqs)) reqs) \<le> v_usage_limit v - v_used_count v" .
    ultimately show ?thesis unfolding red by simp
  next
    fix c w
    assume b: "voucher_code b = JStr c" "trim c \<noteq> []"
      "select_voucher d (normalize_code c) (now_iso e) = Some w" "\<not> limit_reached w"
      "vouchers ?d1 = vouchers (increment_used (v_id w) d)"
    note wm = select_voucher_mem[OF b(3)]
    note row = increment_used_row[OF di Cons.prems(2) wm]
    show ?thesis
    proof (cases "w = v")
      case True
      let ?v' = "v\<lparr>v_used_count := v_used_count v + 1\<rparr>"
      from row True b(5) have m: "?v' \<in> set (vouchers ?d1)" by simp
      from b(4) True Cons.prems(3) have lt: "v_used_count v < v_usage_limit v"
        by (simp add: limit_reached_def)
      have "int (redemptions (v_code ?v') (fst (run_orders ?d1 reqs)) reqs)
          \<le> v_usage_limit ?v' - v_used_count ?v'"
        by (rule Cons.IH[OF k1 m]) (use Cons.prems(3) lt in simp_all)
      then have "int (redemptions (v_code v) (fst (run_orders ?d1 reqs)) reqs)
          \<le> v_usage_limit v - v_used_count v - 1" by simp
      moreover have "?now \<le> 1" by simp
      ultimately show ?thesis unfolding red by simp
    next
      case False
      from row False b(5) have m: "v \<in> set (vouchers ?d1)" by simp
      have "\<not> names_code (v_code v) b"
      proof
        assume "names_code (v_code v) b"
        with b(1) have "normalize_code c = v_code v" by (auto simp: names_code_def)
        with select_voucher_code[OF b(3)] have "v_code w = v_code v" by simp
        from distinct_key_eq[OF dc wm Cons.prems(2) this] False show False by simp
      qed
      then have "?now = 0" by simp
      moreover from Cons.IH[OF k1 m Cons.prems(3,4)]
      have "int (redemptions (v_code v) (fst (run_orders ?d1 reqs)) reqs) \<le> v_usage_limit v - v_used_count v" .
      ultimately show ?thesis unfolding red by simp
    qed
  qed
qed

lemma insert_order_ok:
  assumes "fault e InsertOrder = None" and "o_order_code row \<notin> o_order_code ` set (orders d)"
  shows "insert_order e d row =
     Inr (orders_seq d + 1,
          d\<lparr>orders := orders d @ [row\<lparr>o_id := orders_seq d + 1, o_status := ''pending''\<rparr>],
            orders_seq := orders_seq d + 1\<rparr>)"
  using assms by (simp add: insert_order_def Let_def)

lemma redeeming_step:
  assumes "keys_ok d" and "v \<in> set (vouchers d)" and "\<not> limit_reached v" and "redeems d v (e, b)"
    and "orderCode_of (now_ms e) \<notin> o_order_code ` set (orders d)"
  shows "\<exists>i tot. fst (createOrder e d b) = OrderCreated (orderCode_of (now_ms e)) i (v_discount_amount v) tot"
    and "vouchers (snd (createOrder e d b)) = vouchers (increment_used (v_id v) d)"
    and "map o_order_code (orders (snd (createOrder e d b)))
           = map o_order_code (orders d) @ [orderCode_of (now_ms e)]"
proof -
  from assms(4) have p: "passes_product_checks e d b" and nf: "no_fault e"
    and nc: "names_code (v_code v) b"
    and ok: "v_is_active v = 1" "v_valid_from v \<le> now_iso e" "now_iso e \<le> v_valid_to v"
    by (simp_all add: redeems_def)
  from p obtain product where pr: "select_product e d (product_id b) = Some product"
    by (auto simp: passes_product_checks_def)
  from nc obtain c where c: "voucher_code b = JStr c" "trim c \<noteq> []" "normalize_code c = v_code v"
    by (auto simp: names_code_def)
  from assms(1) have dc: "distinct (map v_code (vouchers d))" by (simp add: keys_ok_def)
  have sel: "select_voucher d (normalize_code c) (now_iso e) = Some v"
    using select_voucher_unique[OF dc assms(2), of "normalize_code c" "now_iso e"] c(3) ok by simp
  let ?d1 = "increment_used (v_id v) d"
  have vb: "voucher_block e d (voucher_code b) = Inr (v_discount_amount v, ?d1)"
    using nf assms(3) c(2) sel unfolding c(1) voucher_block_JStr
    by (simp add: no_fault_def limit_reached_def)
  let ?row = "new_row e b product (v_discount_amount v)"
  have o1: "orders ?d1 = orders d" "orders_seq ?d1 = orders_seq d"
    by (simp_all add: increment_used_def)
  have "o_order_code ?row \<notin> o_order_code ` set (orders ?d1)"
    using assms(5) by (simp add: o1 new_row_def)
  moreover from nf have "fault e InsertOrder = None" by (simp add: no_fault_def)
  ultimately have ins: "insert_order e ?d1 ?row =
     Inr (orders_seq ?d1 + 1,
          ?d1\<lparr>orders := orders ?d1 @ [?row\<lparr>o_id := orders_seq ?d1 + 1, o_status := ''pending''\<rparr>],
              orders_seq := orders_seq ?d1 + 1\<rparr>)"
    by (rule insert_order_ok[rotated])
  have co: "createOrder e d b =
      (OrderCreated (orderCode_of (now_ms e)) (orders_seq ?d1 + 1) (v_discount_amount v)
         (max 0 (p_price product * qty_of (quantity b) - v_discount_amount v)),
       ?d1\<lparr>orders := orders ?d1 @ [?row\<lparr>o_id := orders_seq ?d1 + 1, o_status := ''pending''\<rparr>],
           orders_seq := orders_seq ?d1 + 1\<rparr>)"
    unfolding createOrder_after_checks[OF p pr] vb by (simp add: ins)
  show "\<exists>i tot. fst (createOrder e d b) = OrderCreated (orderCode_of (now_ms e)) i (v_discount_amount v) tot"
    unfolding co by simp
  show "vouchers (snd (createOrder e d b)) = vouchers (increment_used (v_id v) d)"
    unfolding co by simp
  show "map o_order_code (orders (snd (createOrder e d b)))
           = map o_order_code (orders d) @ [orderCode_of (now_ms e)]"
    unfolding co by (simp add: o1 new_row_def)
qed


lemma redeems_cong:
  assumes "products d' = products d" and "v_code v' = v_code v" and "v_is_active v' = v_is_active v"
    and "v_valid_from v' = v_valid_from v" and "v_valid_to v' = v_valid_to v"
  shows "redeems d' v' q = redeems d v q"
  using assms by (simp add: redeems_def passes_product_checks_def select_product_def)

lemma run_orders_products: "products (snd (run_orders d reqs)) = products d"
proof (induction reqs arbitrary: d)
  case Nil
  then show ?case by simp
next
  case (Cons q reqs)
  obtain e b where q: "q = (e, b)" by (cases q)
  show ?case unfolding q run_orders_Cons by (simp add: Cons.IH createOrder_products)
qed

lemma redeeming_run:
  "keys_ok d \<Longrightarrow> v \<in> set (vouchers d) \<Longrightarrow> 0 < v_usage_limit v
   \<Longrightarrow> v_used_count v + int (length reqs) \<le> v_usage_limit v
   \<Longrightarrow> \<forall>q \<in> set reqs. redeems d v q
   \<Longrightarrow> distinct (map (\<lambda>q. orderCode_of (now_ms (fst q))) reqs @ map o_order_code (orders d))
   \<Longrightarrow> keys_ok (snd (run_orders d reqs))
       \<and> v\<lparr>v_used_count := v_used_count v + int (length reqs)\<rparr> \<in> set (vouchers (snd (run_orders d reqs)))
       \<and> length (fst (run_orders d reqs)) = length reqs
       \<and> (\<forall>r \<in> set (fst (run_orders d reqs)). \<exists>oc i tot. r = OrderCreated oc i (v_discount_amount v) tot)"
proof (induction reqs arbitrary: d v)
  case Nil
  then show ?case by simp
next
  case (Cons q reqs)
  obtain e b where q: "q = (e, b)" by (cases q)
  let ?d1 = "snd (createOrder e d b)"
  let ?v' = "v\<lparr>v_used_count := v_used_count v + 1\<rparr>"
  from Cons.prems(3,4) have nl: "\<not> limit_reached v" by (simp add: limit_reached_def)
  from Cons.prems(5) have rq: "redeems d v (e, b)" by (simp add: q)
  from Cons.prems(6) have fresh: "orderCode_of (now_ms e) \<notin> o_order_code ` set (orders d)"
    by (auto simp: q)
  note step = redeeming_step[OF Cons.prems(1,2) nl rq fresh]
  from Cons.prems(1) have di: "distinct (map v_id (vouchers d))" by (simp add: keys_ok_def)
  from increment_used_row[OF di Cons.prems(2) Cons.prems(2)] step(2)
  have m: "?v' \<in> set (vouchers ?d1)" by simp
  have k1: "keys_ok ?d1" using Cons.prems(1) by (rule createOrder_keys_ok)
  have all: "\<forall>q \<in> set reqs. redeems ?d1 ?v' q"
  proof
    fix x assume "x \<in> set reqs"
    with Cons.prems(5) have "redeems d v x" by simp
    moreover have "redeems ?d1 ?v' x = redeems d v x"
      by (rule redeems_cong) (simp_all add: createOrder_products)
    ultimately show "redeems ?d1 ?v' x" by simp
  qed
  have dist: "distinct (map (\<lambda>q. orderCode_of (now_ms (fst q))) reqs @ map o_order_code (orders ?d1))"
    using Cons.prems(6) unfolding step(3) by (auto simp: q)
  have "keys_ok (snd (run_orders ?d1 reqs))
       \<and> ?v'\<lparr>v_used_count := v_used_count ?v' + int (length reqs)\<rparr> \<in> set (vouchers (snd (run_orders ?d1 reqs)))
       \<and> length (fst (run_orders ?d1 reqs)) = length reqs
       \<and> (\<forall>r \<in> set (fst (run_orders ?d1 reqs)). \<exists>oc i tot. r = OrderCreated oc i (v_discount_amount ?v') tot)"
    by (rule Cons.IH[OF k1 m _ _ all dist]) (use Cons.prems(3,4) in simp_all)
  moreover have "?v'\<lparr>v_used_count := v_used_count ?v' + int (length reqs)\<rparr>
      = v\<lparr>v_used_count := v_used_count v + int (length (q # reqs))\<rparr>" by simp
  ultimately show ?case using step(1) unfolding q run_orders_Cons by (auto simp: add.assoc)
qed

lemma limit_answer:
  assumes "keys_ok d" and "v \<in> set (vouchers d)" and "limit_reached v" and "redeems d v (e, b)"
  shows "createOrder e d b = (Failure 400 ''VOUCHER_LIMIT'', d)"
proof -
  from assms(4) have p: "passes_product_checks e d b" and nf: "no_fault e"
    and nc: "names_code (v_code v) b"
    and ok: "v_is_active v = 1" "v_valid_from v \<le> now_iso e" "now_iso e \<le> v_valid_to v"
    by (simp_all add: redeems_def)
  from p obtain product where pr: "select_product e d (product_id b) = Some product"
    by (auto simp: passes_product_checks_def)
  from nc obtain c where c: "voucher_code b = JStr c" "trim c \<noteq> []" "normalize_code c = v_code v"
    by (auto simp: names_code_def)
  from assms(1) have dc: "distinct (map v_code (vouchers d))" by (simp add: keys_ok_def)
  have sel: "select_voucher d (normalize_code c) (now_iso e) = Some v"
    using select_voucher_unique[OF dc assms(2), of "normalize_code c" "now_iso e"] c(3) ok by simp
  have vb: "voucher_block e d (voucher_code b) = Inl (Failure 400 ''VOUCHER_LIMIT'')"
    using nf assms(3) c(2) sel unfolding c(1) voucher_block_JStr
    by (simp add: no_fault_def limit_reached_def)
  show ?thesis unfolding createOrder_after_checks[OF p pr] vb by simp
qed

lemmas run_defs = redeems_def names_code_def redemptions.simps is_created.simps july_def august_def
  sale_request_def eval_defs

section \<open>The properties\<close>

text \<open>
  C8. The voucher validate operation is a pure read: for every input and every state of
  the datastore it returns the datastore it was given (products, orders and vouchers,
  \<open>used_count\<close> included), whether it succeeds or fails.
\<close>

theorem validateVoucher_pure_read: "snd (validateVoucher e d code) = d"
  by (simp add: validateVoucher_def split: jsval.splits option.splits)

text \<open>
  C6. Every validation failure of order creation (missing required fields, product not
  found or inactive, INVALID_VOUCHER, VOUCHER_LIMIT) is returned before any write: a
  run that ends in one of these errors leaves the whole datastore as it was.
\<close>

theorem createOrder_validation_failure_no_write:
  assumes "fst (createOrder e d b) \<in>
             {Failure 400 ''Missing required fields'', Failure 404 ''Product not found'',
              Failure 400 ''INVALID_VOUCHER'', Failure 400 ''VOUCHER_LIMIT''}"
  shows "snd (createOrder e d b) = d"
proof -
  from assms obtain st msg where "fst (createOrder e d b) = Failure st msg" by auto
  then have "createOrder e d b = (Failure st msg, snd (createOrder e d b))"
    by (simp add: prod_eq_iff)
  from createOrder_failure[OF this] show ?thesis by simp
qed

text \<open>Three of the four errors, each on the small shop: an unknown voucher code, an
  unknown product and a missing customer name.\<close>

theorem createOrder_validation_failure_no_write_witness:
  "fst (createOrder june shop (request (JNum 1) (JStr ''nope''))) = Failure 400 ''INVALID_VOUCHER''
   \<and> snd (createOrder june shop (request (JNum 1) (JStr ''nope''))) = shop
   \<and> fst (createOrder june shop ((request (JNum 1) JNull)\<lparr>product_id := JNum 7\<rparr>))
       = Failure 404 ''Product not found''
   \<and> snd (createOrder june shop ((request (JNum 1) JNull)\<lparr>product_id := JNum 7\<rparr>)) = shop
   \<and> fst (createOrder june shop ((request (JNum 1) JNull)\<lparr>customer_name := JStr []\<rparr>))
       = Failure 400 ''Missing required fields''
   \<and> snd (createOrder june shop ((request (JNum 1) JNull)\<lparr>customer_name := JStr []\<rparr>)) = shop"
proof -
  have a: "fst (createOrder june shop (request (JNum 1) (JStr ''nope''))) = Failure 400 ''INVALID_VOUCHER''"
    by (simp add: eval_defs)
  have b: "fst (createOrder june shop ((request (JNum 1) JNull)\<lparr>product_id := JNum 7\<rparr>))
             = Failure 404 ''Product not found''"
    by (simp add: eval_defs)
  have c: "fst (createOrder june shop ((request (JNum 1) JNull)\<lparr>customer_name := JStr []\<rparr>))
             = Failure 400 ''Missing required fields''"
    by (simp add: eval_defs)
  show ?thesis
    using a b c
      createOrder_validation_failure_no_write[of june shop "request (JNum 1) (JStr ''nope'')"]
      createOrder_validation_failure_no_write[of june shop "(request (JNum 1) JNull)\<lparr>product_id := JNum 7\<rparr>"]
      createOrder_validation_failure_no_write[of june shop "(request (JNum 1) JNull)\<lparr>customer_name := JStr []\<rparr>"]
    by simp
qed

text \<open>
  C2. Order pricing, for integer amounts within the range in which the handler's
  arithmetic on doubles is exact (\<open>exact_pricing\<close>): in every successful run the total
  is \<open>max 0 (price * qty - discount)\<close> for the price of the product found, the quantity
  used and the discount applied, so it is never negative; when no voucher is applied the
  discount is 0 and, for a non-negative price and quantity, the total is \<open>price * qty\<close>
  exactly. The row stored carries the same price, discount and total.
\<close>

theorem createOrder_pricing:
  assumes "createOrder e d b = (OrderCreated oc i disc tot, d')"
    and "select_product e d (product_id b) = Some product"
    and "exact_pricing (p_price product) (qty_of (quantity b)) disc"
  shows "tot = max 0 (p_price product * qty_of (quantity b) - disc) \<and> 0 \<le> tot
     \<and> (no_voucher (voucher_code b) \<longrightarrow> disc = 0 \<and>
          (0 \<le> p_price product \<and> 0 \<le> qty_of (quantity b)
             \<longrightarrow> tot = p_price product * qty_of (quantity b)))
     \<and> o_total_price (last (orders d')) = tot \<and> o_discount_amount (last (orders d')) = disc
     \<and> o_product_price (last (orders d')) = p_price product"
proof -
  from createOrder_success[OF assms(1)] assms(2) obtain d1 where
    vb: "voucher_block e d (voucher_code b) = Inr (disc, d1)"
    and ins: "insert_order e d1 (new_row e b product disc) = Inr (i, d')"
    and tot: "tot = max 0 (p_price product * qty_of (quantity b) - disc)" by auto
  from insert_order_Inr[OF ins]
  have d': "last (orders d') = (new_row e b product disc)\<lparr>o_id := i, o_status := ''pending''\<rparr>"
    by simp
  have nv: "no_voucher (voucher_code b) \<Longrightarrow> disc = 0"
    using voucher_block_Inr[OF vb] by (auto simp: no_voucher_def trim_def)
  have "0 \<le> p_price product \<Longrightarrow> 0 \<le> qty_of (quantity b)
          \<Longrightarrow> 0 \<le> p_price product * qty_of (quantity b)"
    by simp
  with tot d' nv show ?thesis by (auto simp: new_row_def)
qed

text \<open>The example of the specification (price 200000, quantity 2, discount 50000, total
  350000), and the same order with no voucher (total 400000).\<close>

theorem createOrder_pricing_witness:
  "fst (createOrder june shop (request (JNum 2) (JStr '' sale50 '')))
     = OrderCreated ''FSMBXSTDZ4'' 1 50000 350000
   \<and> select_product june shop (JNum 1) = Some shop_product
   \<and> exact_pricing 200000 2 50000
   \<and> (350000::int) = max 0 (200000 * 2 - 50000)
   \<and> fst (createOrder june shop (request (JNum 2) JUndefined))
     = OrderCreated ''FSMBXSTDZ4'' 1 0 400000
   \<and> no_voucher JUndefined
   \<and> exact_pricing 200000 2 0
   \<and> (400000::int) = 200000 * 2"
proof -
  let ?a = "request (JNum 2) (JStr '' sale50 '')" and ?b = "request (JNum 2) JUndefined"
  have a: "fst (createOrder june shop ?a) = OrderCreated ''FSMBXSTDZ4'' 1 50000 350000"
    by (simp add: eval_defs)
  then have a': "createOrder june shop ?a
      = (OrderCreated ''FSMBXSTDZ4'' 1 50000 350000, snd (createOrder june shop ?a))"
    by (simp add: prod_eq_iff)
  have b: "fst (createOrder june shop ?b) = OrderCreated ''FSMBXSTDZ4'' 1 0 400000"
    by (simp add: eval_defs)
  then have b': "createOrder june shop ?b
      = (OrderCreated ''FSMBXSTDZ4'' 1 0 400000, snd (createOrder june shop ?b))"
    by (simp add: prod_eq_iff)
  have pa: "select_product june shop (product_id ?a) = Some shop_product"
    and pb: "select_product june shop (product_id ?b) = Some shop_product"
    by (simp_all add: eval_defs)
  have v: "p_price shop_product = 200000" "qty_of (quantity ?a) = 2" "qty_of (quantity ?b) = 2"
    "product_id ?a = JNum 1" "voucher_code ?b = JUndefined"
    by (simp_all add: shop_product_def request_def qty_of_def)
  have xa: "exact_pricing (p_price shop_product) (qty_of (quantity ?a)) 50000"
    and xb: "exact_pricing (p_price shop_product) (qty_of (quantity ?b)) 0"
    unfolding v by (simp_all add: exact_pricing_def safe_integer_def)
  have n: "no_voucher JUndefined" by (simp add: no_voucher_def)
  note ta = createOrder_pricing[OF a' pa xa]
  note tb = createOrder_pricing[OF b' pb xb]
  from ta have ra: "(350000::int) = max 0 (200000 * 2 - 50000)" by (simp add: v)
  from tb n have rb: "(400000::int) = 200000 * 2" by (simp add: v)
  from pa have sel: "select_product june shop (JNum 1) = Some shop_product" unfolding v .
  from xa have x1: "exact_pricing 200000 2 50000" unfolding v .
  from xb have x2: "exact_pricing 200000 2 0" unfolding v .
  show ?thesis by (intro conjI a sel x1 ra b n x2 rb)
qed





text \<open>
  C5. A voucher with \<open>usage_limit = 0\<close> that is active and within its validity window
  is never refused for its limit, whatever its \<open>used_count\<close>: neither order creation nor
  the validate endpoint answers VOUCHER_LIMIT for a code that normalizes to its code;
  the validate endpoint accepts it and the voucher block of order creation applies it.
  The code column is UNIQUE.
\<close>

theorem unlimited_voucher_never_limit:
  assumes "distinct (map v_code (vouchers d))" and "v \<in> set (vouchers d)"
    and "v_usage_limit v = 0" and "v_is_active v = 1"
    and "v_valid_from v \<le> now_iso e" and "now_iso e \<le> v_valid_to v"
    and "normalize_code c = v_code v"
  shows "fst (createOrder e d (b\<lparr>voucher_code := JStr c\<rparr>)) \<noteq> Failure 400 ''VOUCHER_LIMIT''
     \<and> fst (validateVoucher e d (JStr c)) \<noteq> Failure 400 ''VOUCHER_LIMIT''
     \<and> (c \<noteq> [] \<and> fault e SelectVoucher = None \<longrightarrow>
          fst (validateVoucher e d (JStr c)) = VoucherValid (v_id v) (v_code v) (v_discount_amount v))
     \<and> (trim c \<noteq> [] \<and> fault e SelectVoucher = None \<and> fault e UpdateVoucher = None \<longrightarrow>
          voucher_block e d (JStr c) = Inr (v_discount_amount v, increment_used (v_id v) d))"
proof -
  have sel: "select_voucher d (normalize_code c) (now_iso e) = Some v"
    using select_voucher_unique[OF assms(1,2), of "normalize_code c" "now_iso e"] assms(4-7) by simp
  have 1: "fst (createOrder e d (b\<lparr>voucher_code := JStr c\<rparr>)) \<noteq> Failure 400 ''VOUCHER_LIMIT''"
  proof
    assume "fst (createOrder e d (b\<lparr>voucher_code := JStr c\<rparr>)) = Failure 400 ''VOUCHER_LIMIT''"
    then have "createOrder e d (b\<lparr>voucher_code := JStr c\<rparr>)
        = (Failure 400 ''VOUCHER_LIMIT'', snd (createOrder e d (b\<lparr>voucher_code := JStr c\<rparr>)))"
      by (simp add: prod_eq_iff)
    from createOrder_failure[OF this]
    have "voucher_block e d (JStr c) = Inl (Failure 400 ''VOUCHER_LIMIT'')" by simp
    from voucher_block_Failure[OF this] sel assms(3) show False by auto
  qed
  have 2: "fst (validateVoucher e d (JStr c)) \<noteq> Failure 400 ''VOUCHER_LIMIT''"
  proof
    assume "fst (validateVoucher e d (JStr c)) = Failure 400 ''VOUCHER_LIMIT''"
    from validateVoucher_Failure[OF this] sel assms(3) show False by auto
  qed
  have 3: "c \<noteq> [] \<and> fault e SelectVoucher = None \<longrightarrow>
          fst (validateVoucher e d (JStr c)) = VoucherValid (v_id v) (v_code v) (v_discount_amount v)"
    by (simp add: validateVoucher_JStr sel assms(3))
  have 4: "trim c \<noteq> [] \<and> fault e SelectVoucher = None \<and> fault e UpdateVoucher = None \<longrightarrow>
          voucher_block e d (JStr c) = Inr (v_discount_amount v, increment_used (v_id v) d)"
    by (simp add: voucher_block_JStr sel assms(3))
  from 1 2 3 4 show ?thesis by blast
qed

text \<open>The shop's voucher made unlimited, with 1000 uses recorded.\<close>

theorem unlimited_voucher_never_limit_witness:
  "fst (createOrder june (shop_with (shop_voucher\<lparr>v_usage_limit := 0, v_used_count := 1000\<rparr>))
          (request (JNum 1) (JStr ''sale50'')))
     = OrderCreated ''FSMBXSTDZ4'' 1 50000 150000
   \<and> fst (validateVoucher june (shop_with (shop_voucher\<lparr>v_usage_limit := 0, v_used_count := 1000\<rparr>))
          (JStr ''sale50''))
     = VoucherValid 1 ''SALE50'' 50000"
proof -
  let ?v = "shop_voucher\<lparr>v_usage_limit := 0, v_used_count := 1000\<rparr>"
  have h: "distinct (map v_code (vouchers (shop_with ?v)))" "?v \<in> set (vouchers (shop_with ?v))"
    "v_usage_limit ?v = 0" "v_is_active ?v = 1" "v_valid_from ?v \<le> now_iso june"
    "now_iso june \<le> v_valid_to ?v" "normalize_code ''sale50'' = v_code ?v"
    by (simp_all add: shop_with_def eval_defs)
  have f: "''sale50'' \<noteq> [] \<and> fault june SelectVoucher = None" by (simp add: eval_defs)
  have a: "fst (createOrder june (shop_with ?v) (request (JNum 1) (JStr ''sale50'')))
     = OrderCreated ''FSMBXSTDZ4'' 1 50000 150000"
    by (simp add: shop_with_def eval_defs)
  from unlimited_voucher_never_limit[OF h, of "request (JNum 1) JNull"] f
  have "fst (validateVoucher june (shop_with ?v) (JStr ''sale50'')) = VoucherValid (v_id ?v) (v_code ?v) (v_discount_amount ?v)"
    by blast
  then have "fst (validateVoucher june (shop_with ?v) (JStr ''sale50'')) = VoucherValid 1 ''SALE50'' 50000"
    by (simp add: shop_voucher_def)
  with a show ?thesis by simp
qed

text \<open>
  C4, as stated: voucher validation fails with INVALID_VOUCHER if and only if no active
  voucher matches the normalized code within its window. The validate endpoint answers
  the empty code, which no voucher of the shop matches, with MISSING_CODE (the guard
  \<^verbatim>\<open>if (!code)\<close> precedes the lookup), and a code that is a number with the error
  of the \<^verbatim>\<open>catch\<close>, since a number has no \<^verbatim>\<open>trim\<close>.
\<close>

theorem missing_code_counterexample:
  "\<not> matching_voucher shop (normalize_code []) (now_iso june)
   \<and> fst (validateVoucher june shop (JStr [])) = Failure 400 ''MISSING_CODE''
   \<and> fst (validateVoucher june shop (JNum 5)) = ServerError TypeError"
  by (simp add: eval_defs)

text \<open>
  C4, amended: voucher validation fails with INVALID_VOUCHER if and only if the lookup
  is reached and no active voucher matches the normalized code with
  \<open>valid_from \<le> now \<le> valid_to\<close>. The lookup is reached in order creation when the
  request passes the product checks, \<open>voucher_code\<close> is a string whose trimmed form is
  not empty and the SELECT does not throw; in the validate endpoint when \<open>code\<close> is a
  non-empty string and the SELECT does not throw. In particular, with the code column
  UNIQUE and under these conditions, a code that normalizes to the code of a voucher
  whose window excludes the current time is answered INVALID_VOUCHER by both.
\<close>

theorem invalid_voucher_iff:
  "(fst (createOrder e d b) = Failure 400 ''INVALID_VOUCHER'' \<longleftrightarrow>
      passes_product_checks e d b \<and>
      (\<exists>c. voucher_code b = JStr c \<and> trim c \<noteq> [] \<and> fault e SelectVoucher = None
           \<and> \<not> matching_voucher d (normalize_code c) (now_iso e)))
   \<and> (fst (validateVoucher e d code) = Failure 400 ''INVALID_VOUCHER'' \<longleftrightarrow>
      (\<exists>c. code = JStr c \<and> c \<noteq> [] \<and> fault e SelectVoucher = None
           \<and> \<not> matching_voucher d (normalize_code c) (now_iso e)))
   \<and> (distinct (map v_code (vouchers d)) \<and> v \<in> set (vouchers d) \<and> normalize_code s = v_code v
        \<and> \<not> (v_valid_from v \<le> now_iso e \<and> now_iso e \<le> v_valid_to v)
        \<and> fault e SelectVoucher = None \<longrightarrow>
      (s \<noteq> [] \<longrightarrow> fst (validateVoucher e d (JStr s)) = Failure 400 ''INVALID_VOUCHER'')
      \<and> (passes_product_checks e d b \<and> voucher_code b = JStr s \<and> trim s \<noteq> [] \<longrightarrow>
           fst (createOrder e d b) = Failure 400 ''INVALID_VOUCHER''))"
proof (intro conjI impI)
  show "fst (createOrder e d b) = Failure 400 ''INVALID_VOUCHER'' \<longleftrightarrow>
      passes_product_checks e d b \<and>
      (\<exists>c. voucher_code b = JStr c \<and> trim c \<noteq> [] \<and> fault e SelectVoucher = None
           \<and> \<not> matching_voucher d (normalize_code c) (now_iso e))"
    unfolding createOrder_INVALID_iff select_voucher_None ..
  show "fst (validateVoucher e d code) = Failure 400 ''INVALID_VOUCHER'' \<longleftrightarrow>
      (\<exists>c. code = JStr c \<and> c \<noteq> [] \<and> fault e SelectVoucher = None
           \<and> \<not> matching_voucher d (normalize_code c) (now_iso e))"
    unfolding validateVoucher_INVALID_iff select_voucher_None ..
next
  assume h: "distinct (map v_code (vouchers d)) \<and> v \<in> set (vouchers d) \<and> normalize_code s = v_code v
        \<and> \<not> (v_valid_from v \<le> now_iso e \<and> now_iso e \<le> v_valid_to v)
        \<and> fault e SelectVoucher = None"
  then have sel: "select_voucher d (normalize_code s) (now_iso e) = None"
    using select_voucher_unique[of d v "normalize_code s" "now_iso e"] by auto
  {
    assume "s \<noteq> []"
    with h sel show "fst (validateVoucher e d (JStr s)) = Failure 400 ''INVALID_VOUCHER''"
      unfolding validateVoucher_INVALID_iff by blast
  }
  {
    assume "passes_product_checks e d b \<and> voucher_code b = JStr s \<and> trim s \<noteq> []"
    with h sel show "fst (createOrder e d b) = Failure 400 ''INVALID_VOUCHER''"
      unfolding createOrder_INVALID_iff by blast
  }
qed

text \<open>The shop's voucher (valid through 2025) in January 2026 and in June 2025.\<close>

theorem invalid_voucher_iff_witness:
  "\<not> (v_valid_from shop_voucher \<le> now_iso january \<and> now_iso january \<le> v_valid_to shop_voucher)
   \<and> fst (validateVoucher january shop (JStr ''sale50'')) = Failure 400 ''INVALID_VOUCHER''
   \<and> fst (createOrder january shop (request (JNum 1) (JStr ''sale50''))) = Failure 400 ''INVALID_VOUCHER''
   \<and> matching_voucher shop ''SALE50'' (now_iso june)
   \<and> fst (validateVoucher june shop (JStr ''sale50'')) \<noteq> Failure 400 ''INVALID_VOUCHER''"
proof -
  have h: "distinct (map v_code (vouchers shop)) \<and> shop_voucher \<in> set (vouchers shop)
      \<and> normalize_code ''sale50'' = v_code shop_voucher
      \<and> \<not> (v_valid_from shop_voucher \<le> now_iso january \<and> now_iso january \<le> v_valid_to shop_voucher)
      \<and> fault january SelectVoucher = None"
    by (simp add: january_def eval_defs)
  have p: "passes_product_checks january shop (request (JNum 1) (JStr ''sale50''))
      \<and> voucher_code (request (JNum 1) (JStr ''sale50'')) = JStr ''sale50'' \<and> trim ''sale50'' \<noteq> []"
    by (simp add: january_def eval_defs)
  have m: "matching_voucher shop (normalize_code ''sale50'') (now_iso june)"
    by (simp add: eval_defs)
  note t1 = invalid_voucher_iff[of january shop "request (JNum 1) (JStr ''sale50'')" "JStr ''sale50''"
      shop_voucher "''sale50''"]
  note t2 = invalid_voucher_iff[of june shop "request (JNum 1) (JStr ''sale50'')" "JStr ''sale50''"
      shop_voucher "''sale50''"]
  from t1 h p have a: "fst (validateVoucher january shop (JStr ''sale50'')) = Failure 400 ''INVALID_VOUCHER''"
    "fst (createOrder january shop (request (JNum 1) (JStr ''sale50''))) = Failure 400 ''INVALID_VOUCHER''"
    by simp_all
  from t2 m have b: "fst (validateVoucher june shop (JStr ''sale50'')) \<noteq> Failure 400 ''INVALID_VOUCHER''"
    by blast
  have "normalize_code ''sale50'' = ''SALE50''" by (simp add: eval_defs)
  with m have "matching_voucher shop ''SALE50'' (now_iso june)" by simp
  with h a b show ?thesis by simp
qed


text \<open>
  C9. The responses of \<^verbatim>\<open>POST /api/orders\<close>: a success carries \<open>order_code\<close> (and id),
  \<open>discount\<close> and \<open>total\<close>; every failure is \<^verbatim>\<open>{success: false, error}\<close>, and the
  validation failures answer with their respective codes: \<open>Missing required fields\<close>
  exactly when a required field is falsy, \<open>Product not found\<close> exactly when no active
  product has the id, \<open>INVALID_VOUCHER\<close> exactly when no voucher row is selected, and
  \<open>VOUCHER_LIMIT\<close> exactly when the selected row has reached its limit. The only other
  response is the one of the \<^verbatim>\<open>catch\<close>, with the message of what was thrown.
\<close>

theorem createOrder_response:
  "((\<exists>oc i disc tot. fst (createOrder e d b) = OrderCreated oc i disc tot)
      \<or> fst (createOrder e d b) \<in>
           {Failure 400 ''Missing required fields'', Failure 404 ''Product not found'',
            Failure 400 ''INVALID_VOUCHER'', Failure 400 ''VOUCHER_LIMIT''}
      \<or> (\<exists>x. fst (createOrder e d b) = ServerError x))
   \<and> (\<forall>oc i disc tot. fst (createOrder e d b) = OrderCreated oc i disc tot \<longrightarrow>
         oc = orderCode_of (now_ms e) \<and> i = orders_seq d + 1 \<and> 0 \<le> tot
         \<and> passes_product_checks e d b)
   \<and> (fst (createOrder e d b) = Failure 400 ''Missing required fields'' \<longleftrightarrow>
         \<not> (truthy (customer_name b) \<and> truthy (customer_phone b) \<and> truthy (customer_address b)
            \<and> truthy (product_id b)))
   \<and> (fst (createOrder e d b) = Failure 404 ''Product not found'' \<longleftrightarrow>
         truthy (customer_name b) \<and> truthy (customer_phone b) \<and> truthy (customer_address b)
         \<and> truthy (product_id b) \<and> fault e SelectProduct = None
         \<and> select_product e d (product_id b) = None)
   \<and> (fst (createOrder e d b) = Failure 400 ''INVALID_VOUCHER'' \<longleftrightarrow>
         passes_product_checks e d b \<and>
         (\<exists>c. voucher_code b = JStr c \<and> trim c \<noteq> [] \<and> fault e SelectVoucher = None
              \<and> select_voucher d (normalize_code c) (now_iso e) = None))
   \<and> (fst (createOrder e d b) = Failure 400 ''VOUCHER_LIMIT'' \<longleftrightarrow>
         passes_product_checks e d b \<and>
         (\<exists>c v. voucher_code b = JStr c \<and> trim c \<noteq> [] \<and> fault e SelectVoucher = None
              \<and> select_voucher d (normalize_code c) (now_iso e) = Some v
              \<and> v_usage_limit v > 0 \<and> v_used_count v \<ge> v_usage_limit v))
   \<and> (\<forall>x. fst (createOrder e d b) = ServerError x \<longrightarrow>
         (x = TypeError \<and> truthy (voucher_code b) \<and> (\<forall>s. voucher_code b \<noteq> JStr s))
         \<or> (x = UniqueViolation \<and> orderCode_of (now_ms e) \<in> o_order_code ` set (orders d))
         \<or> (\<exists>m st. fault e st = Some m \<and> x = D1Fault m))"
proof (intro conjI allI impI)
  show "(\<exists>oc i disc tot. fst (createOrder e d b) = OrderCreated oc i disc tot)
      \<or> fst (createOrder e d b) \<in>
           {Failure 400 ''Missing required fields'', Failure 404 ''Product not found'',
            Failure 400 ''INVALID_VOUCHER'', Failure 400 ''VOUCHER_LIMIT''}
      \<or> (\<exists>x. fst (createOrder e d b) = ServerError x)"
    by (rule createOrder_outcomes)
next
  fix oc i disc tot
  assume r: "fst (createOrder e d b) = OrderCreated oc i disc tot"
  note s = createOrder_OrderCreated[OF r]
  from s show "oc = orderCode_of (now_ms e)" by simp
  from s show "i = orders_seq d + 1" by simp
  from s show "0 \<le> tot" by simp
  from s show "passes_product_checks e d b" by simp
next
  show "fst (createOrder e d b) = Failure 400 ''Missing required fields'' \<longleftrightarrow>
         \<not> (truthy (customer_name b) \<and> truthy (customer_phone b) \<and> truthy (customer_address b)
            \<and> truthy (product_id b))"
    by (rule createOrder_missing_iff)
next
  show "fst (createOrder e d b) = Failure 404 ''Product not found'' \<longleftrightarrow>
         truthy (customer_name b) \<and> truthy (customer_phone b) \<and> truthy (customer_address b)
         \<and> truthy (product_id b) \<and> fault e SelectProduct = None
         \<and> select_product e d (product_id b) = None"
    by (rule createOrder_not_found_iff)
next
  show "fst (createOrder e d b) = Failure 400 ''INVALID_VOUCHER'' \<longleftrightarrow>
         passes_product_checks e d b \<and>
         (\<exists>c. voucher_code b = JStr c \<and> trim c \<noteq> [] \<and> fault e SelectVoucher = None
              \<and> select_voucher d (normalize_code c) (now_iso e) = None)"
    by (rule createOrder_INVALID_iff)
next
  show "fst (createOrder e d b) = Failure 400 ''VOUCHER_LIMIT'' \<longleftrightarrow>
         passes_product_checks e d b \<and>
         (\<exists>c v. voucher_code b = JStr c \<and> trim c \<noteq> [] \<and> fault e SelectVoucher = None
              \<and> select_voucher d (normalize_code c) (now_iso e) = Some v
              \<and> v_usage_limit v > 0 \<and> v_used_count v \<ge> v_usage_limit v)"
    by (rule createOrder_LIMIT_iff)
next
  fix x
  assume "fst (createOrder e d b) = ServerError x"
  then show "(x = TypeError \<and> truthy (voucher_code b) \<and> (\<forall>s. voucher_code b \<noteq> JStr s))
         \<or> (x = UniqueViolation \<and> orderCode_of (now_ms e) \<in> o_order_code ` set (orders d))
         \<or> (\<exists>m st. fault e st = Some m \<and> x = D1Fault m)"
    by (rule createOrder_ServerError_cause)
qed

text \<open>One run for the success and one for each of the four codes.\<close>

theorem createOrder_response_witness:
  "fst (createOrder june shop (request (JNum 2) (JStr ''SALE50'')))
     = OrderCreated (orderCode_of (now_ms june)) 1 50000 350000
   \<and> orderCode_of (now_ms june) = ''FSMBXSTDZ4''
   \<and> fst (createOrder june (shop_with (shop_voucher\<lparr>v_usage_limit := 1, v_used_count := 1\<rparr>))
          (request (JNum 2) (JStr ''SALE50'')))
     = Failure 400 ''VOUCHER_LIMIT''
   \<and> fst (createOrder june shop ((request (JNum 2) JNull)\<lparr>customer_phone := JNull\<rparr>))
     = Failure 400 ''Missing required fields''
   \<and> fst (createOrder june shop ((request (JNum 2) JNull)\<lparr>product_id := JNum 2\<rparr>))
     = Failure 404 ''Product not found''
   \<and> fst (createOrder june shop (request (JNum 2) (JStr ''spring'')))
     = Failure 400 ''INVALID_VOUCHER''"
proof -
  let ?full = "shop_with (shop_voucher\<lparr>v_usage_limit := 1, v_used_count := 1\<rparr>)"
  have a: "fst (createOrder june shop (request (JNum 2) (JStr ''SALE50'')))
     = OrderCreated ''FSMBXSTDZ4'' 1 50000 350000"
    by (simp add: eval_defs)
  note t = createOrder_response[of june shop "request (JNum 2) (JStr ''SALE50'')"]
  from t[THEN conjunct2, THEN conjunct1] a
  have oc: "''FSMBXSTDZ4'' = orderCode_of (now_ms june)" by blast
  have lim: "passes_product_checks june ?full (request (JNum 2) (JStr ''SALE50'')) \<and>
     (\<exists>c v. voucher_code (request (JNum 2) (JStr ''SALE50'')) = JStr c \<and> trim c \<noteq> []
          \<and> fault june SelectVoucher = None
          \<and> select_voucher ?full (normalize_code c) (now_iso june) = Some v
          \<and> v_usage_limit v > 0 \<and> v_used_count v \<ge> v_usage_limit v)"
    by (simp add: eval_defs)
  note u = createOrder_response[of june ?full "request (JNum 2) (JStr ''SALE50'')"]
  from u[THEN conjunct2, THEN conjunct2, THEN conjunct2, THEN conjunct2, THEN conjunct2, THEN conjunct1] lim
  have b: "fst (createOrder june ?full (request (JNum 2) (JStr ''SALE50''))) = Failure 400 ''VOUCHER_LIMIT''"
    by (rule iffD2)
  have c: "fst (createOrder june shop ((request (JNum 2) JNull)\<lparr>customer_phone := JNull\<rparr>))
     = Failure 400 ''Missing required fields''"
    by (simp add: eval_defs)
  have d: "fst (createOrder june shop ((request (JNum 2) JNull)\<lparr>product_id := JNum 2\<rparr>))
     = Failure 404 ''Product not found''"
    by (simp add: eval_defs)
  have e: "fst (createOrder june shop (request (JNum 2) (JStr ''spring''))) = Failure 400 ''INVALID_VOUCHER''"
    by (simp add: eval_defs)
  from a oc b c d e show ?thesis by simp
qed

text \<open>
  C7, as stated: the outcome of voucher validation on a code equals its outcome on the
  uppercased, trimmed form of the code, in both handlers. The validate endpoint tests
  the code for emptiness before it trims it: a code of one space reaches the lookup (and
  finds no voucher), while its trimmed form, the empty string, is answered MISSING_CODE.
\<close>

theorem blank_code_counterexample:
  "fst (validateVoucher june shop (JStr '' '')) = Failure 400 ''INVALID_VOUCHER''
   \<and> fst (validateVoucher june shop (JStr (normalize_code '' ''))) = Failure 400 ''MISSING_CODE''"
  by (simp add: eval_defs)

text \<open>
  C7, amended: voucher code matching is case- and whitespace-insensitive. For every
  string code, order creation has the same outcome (response and datastore) on the code
  and on its uppercased, trimmed form; the validate endpoint has the same outcome on
  both for every code whose trimmed form is not empty.
\<close>

theorem normalized_code_same_outcome:
  "createOrder e d (b\<lparr>voucher_code := JStr c\<rparr>)
     = createOrder e d (b\<lparr>voucher_code := JStr (normalize_code c)\<rparr>)
   \<and> (trim c \<noteq> [] \<longrightarrow>
        validateVoucher e d (JStr c) = validateVoucher e d (JStr (normalize_code c)))"
  by (simp add: createOrder_normalized validateVoucher_normalized)

text \<open>The shop's code in lower case between spaces.\<close>

theorem normalized_code_same_outcome_witness:
  "trim '' sale50 '' \<noteq> [] \<and> normalize_code '' sale50 '' = ''SALE50''
   \<and> validateVoucher june shop (JStr '' sale50 '') = validateVoucher june shop (JStr ''SALE50'')
   \<and> fst (validateVoucher june shop (JStr '' sale50 '')) = VoucherValid 1 ''SALE50'' 50000
   \<and> createOrder june shop (request (JNum 1) (JStr '' sale50 ''))
        = createOrder june shop (request (JNum 1) (JStr ''SALE50''))"
proof -
  have t: "trim '' sale50 '' \<noteq> []" and n: "normalize_code '' sale50 '' = ''SALE50''"
    by (simp_all add: eval_defs)
  have r: "(request (JNum 1) JNull)\<lparr>voucher_code := JStr c\<rparr> = request (JNum 1) (JStr c)" for c
    by (simp add: request_def)
  have v: "fst (validateVoucher june shop (JStr '' sale50 '')) = VoucherValid 1 ''SALE50'' 50000"
    by (simp add: eval_defs)
  from normalized_code_same_outcome[where e = june and d = shop and b = "request (JNum 1) JNull"
      and c = "'' sale50 ''"] t v
  show ?thesis by (simp add: n r)
qed

text \<open>
  C3, as stated: in every run of order creation in which the order insert fails, the
  voucher's \<open>used_count\<close> is left unchanged. The UPDATE precedes the INSERT and nothing
  undoes it: a request carrying the shop's voucher whose order code collides with an
  existing order is answered with the error of the insert, no order is added, and the
  voucher's \<open>used_count\<close> has gone from 0 to 1.
\<close>

theorem insert_failure_counterexample:
  "fst (createOrder june busy_shop (request (JNum 1) (JStr ''SALE50''))) = ServerError UniqueViolation
   \<and> orders (snd (createOrder june busy_shop (request (JNum 1) (JStr ''SALE50'')))) = orders busy_shop
   \<and> map v_used_count (vouchers busy_shop) = [0]
   \<and> map v_used_count (vouchers (snd (createOrder june busy_shop (request (JNum 1) (JStr ''SALE50''))))) = [1]"
  by (simp add: busy_shop_def earlier_order_def new_row_def eval_defs)

text \<open>
  C3, amended: in order creation the voucher's \<open>used_count\<close> is incremented once the
  voucher has passed validation, before the order is inserted, and the increment is not
  rolled back. In every run in which the order insert fails (the order code is already
  taken, or the datastore throws on the INSERT and on no earlier statement) the orders
  table is unchanged; if no voucher was applied the whole datastore is unchanged; if a
  voucher was applied, the datastore is the given one with \<open>used_count\<close> incremented on
  the selected voucher's id, so that \<open>used_count\<close> of the selected row is one higher
  than before.
\<close>

theorem used_count_kept_when_insert_fails:
  assumes "fst (createOrder e d b) = ServerError x"
    and "x = UniqueViolation \<or>
         (\<exists>m. x = D1Fault m \<and> fault e InsertOrder = Some m \<and> fault e SelectProduct = None
              \<and> fault e SelectVoucher = None \<and> fault e UpdateVoucher = None)"
  shows "orders (snd (createOrder e d b)) = orders d
     \<and> (no_voucher (voucher_code b) \<longrightarrow> snd (createOrder e d b) = d)
     \<and> (\<not> no_voucher (voucher_code b) \<longrightarrow>
          (\<exists>c v. voucher_code b = JStr c \<and> select_voucher d (normalize_code c) (now_iso e) = Some v
                \<and> v \<in> set (vouchers d)
                \<and> snd (createOrder e d b) = increment_used (v_id v) d
                \<and> v\<lparr>v_used_count := v_used_count v + 1\<rparr> \<in> set (vouchers (snd (createOrder e d b)))))"
proof -
  let ?d' = "snd (createOrder e d b)"
  from assms(1) have "createOrder e d b = (ServerError x, ?d')" by (simp add: prod_eq_iff)
  from createOrder_ServerError[OF this]
  consider (a) m where "fault e SelectProduct = Some m" "x = D1Fault m"
    | (b) "voucher_block e d (voucher_code b) = Inl (ServerError x)"
    | (c) product disc where "voucher_block e d (voucher_code b) = Inr (disc, ?d')"
        "insert_order e ?d' (new_row e b product disc) = Inl x"
    by blast
  then show ?thesis
  proof cases
    case a
    with assms(2) show ?thesis by auto
  next
    case b
    from voucher_block_ServerError[OF b] assms(2) show ?thesis by auto
  next
    case c
    from voucher_block_frame[OF c(1)] have o: "orders ?d' = orders d" by simp
    from voucher_block_Inr[OF c(1)]
    consider (none) "no_voucher (voucher_code b)" "?d' = d"
      | (some) s v where "voucher_code b = JStr s" "trim s \<noteq> []"
          "select_voucher d (normalize_code s) (now_iso e) = Some v"
          "?d' = increment_used (v_id v) d"
      by blast
    then show ?thesis
    proof cases
      case none
      with o show ?thesis by simp
    next
      case some
      from some(1,2) have nv: "\<not> no_voucher (voucher_code b)"
        by (auto simp: no_voucher_def trim_Nil)
      from select_voucher_mem[OF some(3)] have m: "v \<in> set (vouchers d)" .
      from increment_used_mem[OF m] some(4)
      have "v\<lparr>v_used_count := v_used_count v + 1\<rparr> \<in> set (vouchers ?d')" by simp
      with o nv some m show ?thesis by auto
    qed
  qed
qed

text \<open>The colliding request with the shop's voucher, and without a voucher.\<close>

theorem used_count_kept_when_insert_fails_witness:
  "fst (createOrder june busy_shop (request (JNum 1) (JStr ''SALE50''))) = ServerError UniqueViolation
   \<and> \<not> no_voucher (JStr ''SALE50'')
   \<and> shop_voucher \<in> set (vouchers busy_shop)
   \<and> shop_voucher\<lparr>v_used_count := 1\<rparr>
        \<in> set (vouchers (snd (createOrder june busy_shop (request (JNum 1) (JStr ''SALE50'')))))
   \<and> fst (createOrder june busy_shop (request (JNum 1) JNull)) = ServerError UniqueViolation
   \<and> no_voucher JNull
   \<and> snd (createOrder june busy_shop (request (JNum 1) JNull)) = busy_shop"
proof -
  have a: "fst (createOrder june busy_shop (request (JNum 1) (JStr ''SALE50''))) = ServerError UniqueViolation"
    by (simp add: busy_shop_def earlier_order_def new_row_def eval_defs)
  have b: "fst (createOrder june busy_shop (request (JNum 1) JNull)) = ServerError UniqueViolation"
    by (simp add: busy_shop_def earlier_order_def new_row_def eval_defs)
  have n: "\<not> no_voucher (voucher_code (request (JNum 1) (JStr ''SALE50'')))"
    "no_voucher (voucher_code (request (JNum 1) JNull))"
    by (simp_all add: eval_defs)
  have s: "select_voucher busy_shop (normalize_code ''SALE50'') (now_iso june) = Some shop_voucher"
    by (simp add: busy_shop_def eval_defs)
  note ta = used_count_kept_when_insert_fails[OF a]
  note tb = used_count_kept_when_insert_fails[OF b]
  from ta n(1) obtain c v where cv: "voucher_code (request (JNum 1) (JStr ''SALE50'')) = JStr c"
    "select_voucher busy_shop (normalize_code c) (now_iso june) = Some v"
    "v \<in> set (vouchers busy_shop)"
    "v\<lparr>v_used_count := v_used_count v + 1\<rparr>
       \<in> set (vouchers (snd (createOrder june busy_shop (request (JNum 1) (JStr ''SALE50'')))))"
    by blast
  from cv(1) have "c = ''SALE50''" by (simp add: request_def)
  with cv(2) s have v: "v = shop_voucher" by simp
  have "shop_voucher\<lparr>v_used_count := v_used_count shop_voucher + 1\<rparr> = shop_voucher\<lparr>v_used_count := 1\<rparr>"
    by (simp add: shop_voucher_def)
  with cv(3,4) v have c1: "shop_voucher \<in> set (vouchers busy_shop)"
    "shop_voucher\<lparr>v_used_count := 1\<rparr>
       \<in> set (vouchers (snd (createOrder june busy_shop (request (JNum 1) (JStr ''SALE50'')))))"
    by simp_all
  from tb n(2) have c2: "snd (createOrder june busy_shop (request (JNum 1) JNull)) = busy_shop"
    by simp
  from n have "\<not> no_voucher (JStr ''SALE50'')" "no_voucher JNull" by (simp_all add: request_def)
  with a b c1 c2 show ?thesis by simp
qed

text \<open>
  C1. For a voucher \<open>v\<close> with \<open>usage_limit = N > 0\<close> (and the keys of the voucher table
  as the schema has them), under sequential execution of order creation:
  \<^item> a run of \<open>N - used_count\<close> requests that redeem \<open>v\<close>, with fresh order codes, is
    answered with that many created orders carrying the discount of \<open>v\<close>, and the next
    request that redeems \<open>v\<close> is answered VOUCHER_LIMIT and writes nothing; from
    \<open>used_count = 0\<close> these are exactly \<open>N\<close> successes and the failure of the
    \<open>(N+1)\<close>th attempt;
  \<^item> in no run of requests whatever do more than \<open>N - used_count\<close> orders that name
    the code of \<open>v\<close> succeed;
  \<^item> the invariant \<open>used_count \<le> usage_limit\<close> (for \<open>usage_limit > 0\<close>) is preserved
    by order creation, by runs of it, by the validate endpoint and by the admin toggle
    and delete.
\<close>

theorem voucher_limit_exact:
  assumes "keys_ok d" and "v \<in> set (vouchers d)" and "v_usage_limit v = N" and "0 < N"
    and "v_used_count v \<le> N"
  shows "((\<forall>q \<in> set reqs. redeems d v q) \<and> redeems d v extra
            \<and> distinct (map (\<lambda>q. orderCode_of (now_ms (fst q))) reqs @ map o_order_code (orders d))
            \<and> int (length reqs) = N - v_used_count v \<longrightarrow>
          length (fst (run_orders d reqs)) = length reqs
          \<and> (\<forall>r \<in> set (fst (run_orders d reqs)). \<exists>oc i tot. r = OrderCreated oc i (v_discount_amount v) tot)
          \<and> createOrder (fst extra) (snd (run_orders d reqs)) (snd extra)
              = (Failure 400 ''VOUCHER_LIMIT'', snd (run_orders d reqs)))
     \<and> int (redemptions (v_code v) (fst (run_orders d qs)) qs) \<le> N - v_used_count v
     \<and> (limit_inv d \<longrightarrow>
          limit_inv (snd (createOrder e d b)) \<and> limit_inv (snd (run_orders d qs))
          \<and> limit_inv (snd (validateVoucher e d code))
          \<and> limit_inv (snd (toggleVoucher e d i)) \<and> limit_inv (snd (deleteVoucher e d i)))"
proof (intro conjI impI)
  assume h: "(\<forall>q \<in> set reqs. redeems d v q) \<and> redeems d v extra
            \<and> distinct (map (\<lambda>q. orderCode_of (now_ms (fst q))) reqs @ map o_order_code (orders d))
            \<and> int (length reqs) = N - v_used_count v"
  let ?dF = "snd (run_orders d reqs)"
  let ?vF = "v\<lparr>v_used_count := v_used_count v + int (length reqs)\<rparr>"
  have run: "keys_ok ?dF \<and> ?vF \<in> set (vouchers ?dF)
       \<and> length (fst (run_orders d reqs)) = length reqs
       \<and> (\<forall>r \<in> set (fst (run_orders d reqs)). \<exists>oc i tot. r = OrderCreated oc i (v_discount_amount v) tot)"
    by (rule redeeming_run[OF assms(1,2)]) (use h assms(3,4) in simp_all)
  from run show "length (fst (run_orders d reqs)) = length reqs" by simp
  from run show "\<forall>r \<in> set (fst (run_orders d reqs)). \<exists>oc i tot. r = OrderCreated oc i (v_discount_amount v) tot"
    by simp
  have lr: "limit_reached ?vF" using h assms(3,4) by (simp add: limit_reached_def)
  have "redeems ?dF ?vF extra = redeems d v extra"
    by (rule redeems_cong) (simp_all add: run_orders_products)
  with h have "redeems ?dF ?vF (fst extra, snd extra)" by simp
  from limit_answer[OF _ _ lr this] run
  show "createOrder (fst extra) ?dF (snd extra) = (Failure 400 ''VOUCHER_LIMIT'', ?dF)" by simp
next
  show "int (redemptions (v_code v) (fst (run_orders d qs)) qs) \<le> N - v_used_count v"
    using redemptions_bound[OF assms(1,2), of qs] assms(3,4,5) by simp
next
  assume inv: "limit_inv d"
  from assms(1) have di: "distinct (map v_id (vouchers d))" by (simp add: keys_ok_def)
  show "limit_inv (snd (createOrder e d b))" using di inv by (rule createOrder_limit_inv)
  show "limit_inv (snd (run_orders d qs))" using di inv by (rule run_orders_inv)
  show "limit_inv (snd (validateVoucher e d code))" using inv by (simp add: validateVoucher_same_db)
  show "limit_inv (snd (toggleVoucher e d i))" using inv by (rule toggleVoucher_inv)
  show "limit_inv (snd (deleteVoucher e d i))" using inv by (rule deleteVoucher_inv)
qed


text \<open>The shop's voucher (limit 2, unused): two orders succeed, the third is refused.\<close>

theorem voucher_limit_exact_witness:
  "fst (run_orders shop [(june, sale_request), (july, sale_request)])
     = [OrderCreated ''FSMBXSTDZ4'' 1 50000 150000, OrderCreated ''FSMCKH6YO0'' 2 50000 150000]
   \<and> fst (createOrder august (snd (run_orders shop [(june, sale_request), (july, sale_request)]))
           sale_request) = Failure 400 ''VOUCHER_LIMIT''
   \<and> redemptions ''SALE50''
        (fst (run_orders shop [(june, sale_request), (july, sale_request), (august, sale_request)]))
        [(june, sale_request), (july, sale_request), (august, sale_request)] = 2
   \<and> limit_inv shop
   \<and> limit_inv (snd (run_orders shop [(june, sale_request), (july, sale_request), (august, sale_request)]))"
proof -
  let ?reqs = "[(june, sale_request), (july, sale_request)]"
  let ?qs = "[(june, sale_request), (july, sale_request), (august, sale_request)]"
  have h: "keys_ok shop" "shop_voucher \<in> set (vouchers shop)" "v_usage_limit shop_voucher = 2"
    "(0::int) < 2" "v_used_count shop_voucher \<le> 2"
    by (simp_all add: eval_defs)
  have g: "(\<forall>q \<in> set ?reqs. redeems shop shop_voucher q) \<and> redeems shop shop_voucher (august, sale_request)
      \<and> distinct (map (\<lambda>q. orderCode_of (now_ms (fst q))) ?reqs @ map o_order_code (orders shop))
      \<and> int (length ?reqs) = 2 - v_used_count shop_voucher"
    by (simp add: run_defs)
  have i: "limit_inv shop" by (simp add: eval_defs)
  note t = voucher_limit_exact[OF h, where reqs = ?reqs and extra = "(august, sale_request)"
      and qs = ?qs and e = june and b = sale_request and code = JNull and i = "''1''"]
  from t g have a: "createOrder august (snd (run_orders shop ?reqs)) sale_request
      = (Failure 400 ''VOUCHER_LIMIT'', snd (run_orders shop ?reqs))" by simp
  from t i have b: "limit_inv (snd (run_orders shop ?qs))" by simp
  have c: "fst (run_orders shop ?reqs)
     = [OrderCreated ''FSMBXSTDZ4'' 1 50000 150000, OrderCreated ''FSMCKH6YO0'' 2 50000 150000]"
    by (simp add: run_defs)
  have d: "redemptions ''SALE50'' (fst (run_orders shop ?qs)) ?qs = 2"
    by (simp add: run_defs)
  from a b c d i show ?thesis by simp
qed

end
